theory Spec2Isabelle
  imports Main
begin

section \<open>Finit bootstrap (src/finit.c): observable calls, environment and state\<close>

text \<open>
  The file \<^verbatim>\<open>finit.c\<close> is a sequence of calls into other modules (plugins, services,
  conditions, the work queue) and into libc. The embedding keeps the control flow of
  every function of the file and records each call that acts on the outside world as an
  event, in program order. What a call returns is read from an environment record, so a
  theorem quantified over the environment holds for every behaviour of the callees.
  Calls that only read (\<^verbatim>\<open>log_is_silent\<close>, \<^verbatim>\<open>stat\<close>, \<^verbatim>\<open>ismnt\<close>, \<^verbatim>\<open>fisdir\<close>,
  \<^verbatim>\<open>access\<close>, the fstab iterator) are not recorded; \<^verbatim>\<open>service_completed\<close> is, since
  the polls of the bootstrap timer are counted.
  An answer of the environment depends on the arguments of the call only, not on the
  moment of the call; the answers of \<^verbatim>\<open>service_completed\<close> and of \<^verbatim>\<open>waitpid\<close> are
  given call by call. Time is not modelled: the delay of a work item only says when it
  runs relative to the others.
\<close>

datatype hook =
    HOOK_BANNER | HOOK_ROOTFS_UP | HOOK_MOUNT_ERROR | HOOK_MOUNT_POST
  | HOOK_BASEFS_UP | HOOK_SVC_UP | HOOK_SYSTEM_UP

text \<open>The two work items of \<^verbatim>\<open>main\<close>: \<^verbatim>\<open>crank\<close> (callback \<^verbatim>\<open>crank_worker\<close>) and
  \<^verbatim>\<open>final\<close> (callback \<^verbatim>\<open>final_worker\<close>, delay 1000).\<close>

datatype work = Crank | Final

datatype event =
    Client
  | ConfParseCmdline
  | UevInit1
  | Setenv string string
  | Chdir string
  | Umask nat
  | ScreenInit
  | Fork int
  | Waitpid int
  | Fprintf string
  | Setsid
  | IoctlTIOCSCTTY
  | Execl string
  | PluginInit
  | PluginRunHooks hook
  | Callback hook nat
  | PrintBanner string
  | SigInit
  | CgroupInit
  | Pe string
  | Dbg string
  | DbgStr string "string list"
  | DbgInt string int
  | Print string
  | RunInteractive string string
  | Run string
  | ConfInit
  | CondInit
  | CondSetOneshot string
  | SigSetup
  | ConfMonitor
  | ApiInit
  | ScheduleWork work
  | UevRun
  | SmInit
  | SmStep
  | ServiceStepAll
  | ServiceCompleted bool
  | RunParts string
  | ServiceRunlevel int
  | SvcPruneBootstrap
  | LogSilent
  | TtyRunlevel

text \<open>One line of \<^verbatim>\<open>/etc/fstab\<close> as \<^verbatim>\<open>struct fstab\<close> gives it.\<close>

record fstab_ent =
  fs_spec :: string
  fs_file :: string
  fs_type :: string
  fs_passno :: int

text \<open>
  The environment: the macros that \<^verbatim>\<open>config.h\<close> and \<^verbatim>\<open>paths.h\<close> would give, whether
  \<^verbatim>\<open>EMERGENCY_SHELL\<close> is defined, and what the callees answer. \<open>fork_ret\<close> is what
  \<^verbatim>\<open>fork()\<close> returns in the process that is followed (0 in the child). \<open>stat_isblk\<close> says
  that \<^verbatim>\<open>stat\<close> succeeds on a block device, \<open>ismnt_rw file\<close> is
  \<^verbatim>\<open>ismnt("/proc/mounts", file, "rw")\<close>, \<open>access_x path\<close> is \<^verbatim>\<open>!access(path, X_OK)\<close>.
  \<open>conf_runparts\<close> and \<open>conf_cfglevel\<close> are what the configuration file sets.
  \<open>service_completed_at env k\<close> is the answer of the \<open>k\<close>-th evaluation of \<^verbatim>\<open>service_completed()\<close> (counted from 1); \<open>waitpid_ret env i\<close> is what the
  \<open>i\<close>-th call of \<^verbatim>\<open>waitpid\<close> in the emergency shell returns (counted from 0).
\<close>

record env =
  INIT_HEADING :: string
  FINIT_RC_LOCAL :: string
  RUNLEVEL :: int
  PATH_STDPATH :: string
  PATH_BSHELL :: string
  EMERGENCY_SHELL :: bool
  getpid :: int
  kernel_rescue :: bool
  log_is_debug :: bool
  log_is_silent :: bool
  fork_ret :: int
  waitpid_ret :: "nat \<Rightarrow> int"
  execl_fails :: bool
  plugins :: "hook \<Rightarrow> nat list"
  plugin_hook_str :: "hook \<Rightarrow> string"
  setfsent_ok :: bool
  fstab :: "fstab_ent list"
  stat_isblk :: "string \<Rightarrow> bool"
  string_match :: "string \<Rightarrow> string \<Rightarrow> bool"
  ismnt_rw :: "string \<Rightarrow> bool"
  run_interactive_rc :: "string \<Rightarrow> int"
  conf_runparts :: "string option"
  conf_cfglevel :: "int option"
  fisdir :: "string \<Rightarrow> bool"
  access_x :: "string \<Rightarrow> bool"
  service_completed_at :: "nat \<Rightarrow> bool"

text \<open>
  The state: the trace of events so far, the globals of \<^verbatim>\<open>finit.c\<close> that its own code
  reads (\<^verbatim>\<open>rescue\<close>, \<^verbatim>\<open>runparts\<close>, \<^verbatim>\<open>cfglevel\<close>), the \<^verbatim>\<open>static int cnt\<close> of
  \<^verbatim>\<open>final_worker\<close>, the pending work items of the reactor and the condition store
  (\<open>None\<close> until \<^verbatim>\<open>cond_init\<close> has run). \<^verbatim>\<open>cnt\<close> is a C \<^verbatim>\<open>int\<close>; it only ever counts
  down from its initial value to \<open>-1\<close>, so it is an \<open>int\<close> here and no wrap-around arises.
\<close>

record state =
  trace :: "event list"
  cnt :: int
  rescue :: bool
  runparts :: "string option"
  cfglevel :: int
  wq :: "work list"
  conds :: "string list option"

definition emit :: "event \<Rightarrow> state \<Rightarrow> state" where
  "emit e s = s\<lparr>trace := trace s @ [e]\<rparr>"

text \<open>
  Modelled from the spec: \<^verbatim>\<open>plugin_run_hooks\<close> (plugin.c) is not in src. Section 4.3:
  firing a hook point invokes all callbacks registered for it, synchronously and in
  registration order. \<open>plugins env h\<close> lists the callbacks registered for \<open>h\<close>.
\<close>

definition plugin_run_hooks :: "env \<Rightarrow> hook \<Rightarrow> state \<Rightarrow> state" where
  "plugin_run_hooks env h s =
     s\<lparr>trace := trace s @ PluginRunHooks h # map (Callback h) (plugins env h)\<rparr>"

text \<open>
  Modelled from the spec: \<^verbatim>\<open>schedule_work\<close> (schedule.c) is not in src. Section 4.1:
  submitting a work item never runs it inline; it is queued and the reactor runs it
  exactly once, later.
\<close>

definition schedule_work :: "work \<Rightarrow> state \<Rightarrow> state" where
  "schedule_work w s = s\<lparr>trace := trace s @ [ScheduleWork w], wq := wq s @ [w]\<rparr>"

text \<open>\<^verbatim>\<open>run_interactive(cmd, fmt, ...)\<close>: runs the command, returns its exit status.\<close>

definition run_interactive :: "env \<Rightarrow> string \<Rightarrow> string \<Rightarrow> state \<Rightarrow> int \<times> state" where
  "run_interactive env cmd msg s = (run_interactive_rc env cmd, emit (RunInteractive cmd msg) s)"

text \<open>The number of times \<^verbatim>\<open>service_completed()\<close> has been evaluated so far.\<close>

fun is_poll :: "event \<Rightarrow> bool" where
  "is_poll (ServiceCompleted b) = True"
| "is_poll e = False"

definition npolls :: "event list \<Rightarrow> nat" where
  "npolls tr = length (filter is_poll tr)"

definition service_completed :: "env \<Rightarrow> state \<Rightarrow> bool \<times> state" where
  "service_completed env s =
     (let b = service_completed_at env (Suc (npolls (trace s)))
      in (b, emit (ServiceCompleted b) s))"

section \<open>banner, fsck, fsck_all, fs_remount_root, fs_init\<close>

text \<open>\<^verbatim>\<open>banner\<close> (lines 73-81).\<close>

definition banner :: "env \<Rightarrow> state \<Rightarrow> state" where
  "banner env s0 =
     (let s1 = plugin_run_hooks env HOOK_BANNER s0
      in if log_is_silent env then s1 else emit (PrintBanner (INIT_HEADING env)) s1)"

text \<open>
  The \<^verbatim>\<open>while ((fs = getfsent()))\<close> loop of \<^verbatim>\<open>fsck\<close> (lines 96-118) over the entries of
  fstab, with the running sum \<^verbatim>\<open>rc\<close>. \<^verbatim>\<open>cmd\<close> is a buffer of 80 bytes, so \<^verbatim>\<open>snprintf\<close>
  keeps 79 characters; \<^verbatim>\<open>%.13s\<close> keeps 13. The text of \<^verbatim>\<open>strerror(errno)\<close> is not
  recorded. Exit statuses are small, so the sum is an \<open>int\<close> without wrap-around.
\<close>

fun fsck_ents :: "env \<Rightarrow> int \<Rightarrow> fstab_ent list \<Rightarrow> int \<Rightarrow> state \<Rightarrow> int \<times> state" where
  "fsck_ents env pass [] rc s = (rc, s)"
| "fsck_ents env pass (fs # rest) rc s =
     (if fs_passno fs \<noteq> pass then fsck_ents env pass rest rc s
      else if \<not> stat_isblk env (fs_spec fs)
              \<and> \<not> string_match env (fs_spec fs) ''UUID=''
              \<and> \<not> string_match env (fs_spec fs) ''LABEL=''
      then fsck_ents env pass rest rc
             (emit (DbgStr ''Cannot fsck %s, not a block device: %s'' [fs_spec fs]) s)
      else if ismnt_rw env (fs_file fs)
      then fsck_ents env pass rest rc
             (emit (DbgStr ''Skipping fsck of %s, already mounted rw on %s.''
                      [fs_spec fs, fs_file fs]) s)
      else (case run_interactive env (take 79 (''fsck -a '' @ fs_spec fs))
                   (''Checking filesystem '' @ take 13 (fs_spec fs)) s of
              (r, s') \<Rightarrow> fsck_ents env pass rest (rc + r) s'))"

text \<open>\<^verbatim>\<open>fsck\<close> (lines 86-123).\<close>

definition fsck :: "env \<Rightarrow> int \<Rightarrow> state \<Rightarrow> int \<times> state" where
  "fsck env pass s =
     (if \<not> setfsent_ok env then (1, emit (Pe ''Failed opening fstab'') s)
      else fsck_ents env pass (fstab env) 0 s)"

text \<open>The \<^verbatim>\<open>for (pass = 1; pass < 10; pass++)\<close> loop of \<^verbatim>\<open>fsck_all\<close> (lines 129-133).\<close>

function fsck_loop :: "env \<Rightarrow> int \<Rightarrow> int \<Rightarrow> state \<Rightarrow> int \<times> state" where
  "fsck_loop env pass rc s =
     (if pass < 10
      then (case fsck env pass s of
              (rc', s') \<Rightarrow> if rc' \<noteq> 0 then (rc', s') else fsck_loop env (pass + 1) rc' s')
      else (rc, s))"
  by pat_completeness auto
termination
  by (relation "measure (\<lambda>(env, pass, rc, s). nat (10 - pass))") auto

text \<open>\<^verbatim>\<open>fsck_all\<close> (lines 125-136).\<close>

definition fsck_all :: "env \<Rightarrow> state \<Rightarrow> int \<times> state" where
  "fsck_all env s = fsck_loop env 1 0 s"

text \<open>
  \<^verbatim>\<open>fs_remount_root\<close> (lines 139-164, the variant without \<^verbatim>\<open>SYSROOT\<close>). The loop
  stops at the first entry mounted on \<^verbatim>\<open>/\<close>.
\<close>

definition fs_remount_root :: "env \<Rightarrow> int \<Rightarrow> state \<Rightarrow> state" where
  "fs_remount_root env fsckerr s =
     (if \<not> setfsent_ok env then s
      else (case find (\<lambda>fs. fs_file fs = ''/'') (fstab env) of
              None \<Rightarrow> s
            | Some fs \<Rightarrow>
                if fs_type fs = ''ro'' then s
                else if fsckerr \<noteq> 0
                then emit (Print ''Cannot remount / as read-write, fsck failed before'') s
                else snd (run_interactive env ''mount -n -o remount,rw /''
                            ''Remounting / as read-write'' s)))"

text \<open>\<^verbatim>\<open>fs_init\<close> (lines 176-197). \<^verbatim>\<open>umask(0022)\<close> is octal, 18.\<close>

definition fs_init :: "env \<Rightarrow> state \<Rightarrow> state" where
  "fs_init env s0 =
     (let s1 = (if \<not> rescue s0
                then (case fsck_all env s0 of (fsckerr, s') \<Rightarrow> fs_remount_root env fsckerr s')
                else s0);
          s2 = plugin_run_hooks env HOOK_ROOTFS_UP (emit (Dbg ''Root FS up, calling hooks ...'') s1);
          (rc, s3) = run_interactive env ''mount -na'' ''Mounting filesystems'' s2;
          s4 = (if rc \<noteq> 0 then plugin_run_hooks env HOOK_MOUNT_ERROR s3 else s3);
          s5 = plugin_run_hooks env HOOK_MOUNT_POST
                 (emit (Dbg ''Calling extra mount hook, after mount -a ...'') s4)
      in emit (Umask 18) (emit (Run ''swapon -ea'') s5))"

section \<open>emergency_shell\<close>

text \<open>
  The \<^verbatim>\<open>while (1)\<close> loop of \<^verbatim>\<open>emergency_shell\<close> (lines 218-225): \<^verbatim>\<open>waitpid\<close> with
  \<^verbatim>\<open>WNOHANG\<close> is called again and again until it returns \<^verbatim>\<open>pid\<close>. The loop need not
  end; \<open>None\<close> is the loop that runs forever.
\<close>

partial_function (option) reap :: "env \<Rightarrow> int \<Rightarrow> nat \<Rightarrow> state \<Rightarrow> state option" where
  "reap env pid i s =
     (if waitpid_ret env i = pid then Some (emit (Waitpid (waitpid_ret env i)) s)
      else reap env pid (Suc i) (emit (Waitpid (waitpid_ret env i)) s))"

text \<open>
  How a function of the file ends: it returns, or the process image has been replaced
  by \<^verbatim>\<open>execl\<close>.
\<close>

datatype 'a outcome = Returns 'a | Replaced 'a

text \<open>
  \<^verbatim>\<open>emergency_shell\<close> (lines 211-240). The branch \<^verbatim>\<open>if (pid)\<close> is taken by the process
  in which \<^verbatim>\<open>fork\<close> returned non-zero. \<^verbatim>\<open>execl\<close> returns only when it fails.
  The newlines of the two messages are left out.
\<close>

definition emergency_shell :: "env \<Rightarrow> state \<Rightarrow> state outcome option" where
  "emergency_shell env s0 =
     (if \<not> EMERGENCY_SHELL env then Some (Returns s0)
      else (let pid = fork_ret env; s1 = emit (Fork pid) s0
            in if pid \<noteq> 0
               then (case reap env pid 0 s1 of
                       None \<Rightarrow> None
                     | Some s2 \<Rightarrow>
                         (let s3 = emit (Fprintf ''=> Embarrassingly, Finit has crashed.  Check /dev/kmsg for details.'') s2;
                              s4 = emit (Fprintf ''=> To debug, add 'debug' to the kernel command line.'') s3;
                              s5 = emit IoctlTIOCSCTTY (emit Setsid s4);
                              s6 = emit (Execl (PATH_BSHELL env)) s5
                          in if execl_fails env then Some (Returns s6) else Some (Replaced s6)))
               else Some (Returns s1)))"

section \<open>finalize, crank_worker, final_worker\<close>

text \<open>\<^verbatim>\<open>finalize\<close> (lines 253-292). It has no guard against being entered twice.\<close>

definition finalize :: "env \<Rightarrow> state \<Rightarrow> state" where
  "finalize env s0 =
     (let s1 = (case runparts s0 of
                  None \<Rightarrow> s0
                | Some dir \<Rightarrow> if fisdir env dir \<and> \<not> rescue s0 then emit (RunParts dir) s0 else s0);
          s2 = emit (ServiceRunlevel (cfglevel s1))
                 (emit (Dbg ''Change to default runlevel, start all services ...'') s1);
          s3 = emit SvcPruneBootstrap
                 (emit (Dbg ''Clean up all bootstrap-only tasks/services ...'') s2);
          s4 = emit ServiceStepAll
                 (plugin_run_hooks env HOOK_SVC_UP (emit (Dbg ''Running svc up hooks ...'') s3));
          s5 = (if access_x env (FINIT_RC_LOCAL env) \<and> \<not> rescue s4
                then snd (run_interactive env (FINIT_RC_LOCAL env)
                            (''Calling '' @ FINIT_RC_LOCAL env) s4)
                else s4);
          s6 = emit ServiceStepAll
                 (plugin_run_hooks env HOOK_SYSTEM_UP
                    (emit (Dbg ''Calling all system up hooks ...'') s5));
          s7 = emit LogSilent (emit (Dbg ''Going silent ...'') s6)
      in emit TtyRunlevel (emit (Dbg ''Launching all getty services ...'') s7))"

text \<open>\<^verbatim>\<open>crank_worker\<close> (lines 297-305).\<close>

definition crank_worker :: "state \<Rightarrow> state" where
  "crank_worker s = emit SmStep (emit SmInit s)"

text \<open>
  \<^verbatim>\<open>final_worker\<close> (lines 312-331). \<^verbatim>\<open>cnt-- > 0 && !service_completed()\<close> reads
  \<^verbatim>\<open>cnt\<close>, decrements it, and evaluates \<^verbatim>\<open>service_completed()\<close> only when the value
  read was positive. The second test \<^verbatim>\<open>cnt > 0\<close> sees the decremented value.
\<close>

definition final_worker :: "env \<Rightarrow> state \<Rightarrow> state" where
  "final_worker env s0 =
     (let s1 = emit ServiceStepAll (emit (Dbg ''Step all services ...'') s0);
          c = cnt s1;
          s2 = s1\<lparr>cnt := c - 1\<rparr>;
          (again, s3) = (if c > 0
                         then (let (done, s') = service_completed env s2 in (\<not> done, s'))
                         else (False, s2))
      in if again
         then schedule_work Final
                (emit (DbgInt ''Not all bootstrap run/tasks have completed yet ... %d'' (cnt s3)) s3)
         else finalize env
                (if cnt s3 > 0
                 then emit (Dbg ''All run/task have completed, resuming bootstrap.'') s3
                 else emit (Dbg ''Timeout, resuming bootstrap.'') s3))"

section \<open>The reactor running the submitted work\<close>

fun run_work :: "env \<Rightarrow> work \<Rightarrow> state \<Rightarrow> state" where
  "run_work env Crank s = crank_worker s"
| "run_work env Final s = final_worker env s"

lemma trace_emit: "trace (emit e s) = trace s @ [e]"
  and cnt_emit: "cnt (emit e s) = cnt s"
  and wq_emit: "wq (emit e s) = wq s"
  and rescue_emit: "rescue (emit e s) = rescue s"
  and runparts_emit: "runparts (emit e s) = runparts s"
  and cfglevel_emit: "cfglevel (emit e s) = cfglevel s"
  and conds_emit: "conds (emit e s) = conds s"
  by (simp_all add: emit_def)

lemmas emit_simps =
  trace_emit cnt_emit wq_emit rescue_emit runparts_emit cfglevel_emit conds_emit

lemma trace_plugin_run_hooks:
  "trace (plugin_run_hooks env h s) = trace s @ PluginRunHooks h # map (Callback h) (plugins env h)"
  and cnt_plugin_run_hooks: "cnt (plugin_run_hooks env h s) = cnt s"
  and wq_plugin_run_hooks: "wq (plugin_run_hooks env h s) = wq s"
  and rescue_plugin_run_hooks: "rescue (plugin_run_hooks env h s) = rescue s"
  and runparts_plugin_run_hooks: "runparts (plugin_run_hooks env h s) = runparts s"
  and cfglevel_plugin_run_hooks: "cfglevel (plugin_run_hooks env h s) = cfglevel s"
  and conds_plugin_run_hooks: "conds (plugin_run_hooks env h s) = conds s"
  by (simp_all add: plugin_run_hooks_def)

lemmas plugin_run_hooks_simps =
  trace_plugin_run_hooks cnt_plugin_run_hooks wq_plugin_run_hooks rescue_plugin_run_hooks
  runparts_plugin_run_hooks cfglevel_plugin_run_hooks conds_plugin_run_hooks

lemma cnt_finalize: "cnt (finalize env s) = cnt s"
  and wq_finalize: "wq (finalize env s) = wq s"
  and rescue_finalize: "rescue (finalize env s) = rescue s"
  and runparts_finalize: "runparts (finalize env s) = runparts s"
  and cfglevel_finalize: "cfglevel (finalize env s) = cfglevel s"
  and conds_finalize: "conds (finalize env s) = conds s"
  by (simp_all add: finalize_def Let_def run_interactive_def emit_simps plugin_run_hooks_simps
      split: option.split)

lemma run_work_measure:
  "length (wq (run_work env w s)) + nat (cnt (run_work env w s)) \<le> length (wq s) + nat (cnt s)"
proof (cases w)
  case Crank
  then show ?thesis by (simp add: crank_worker_def emit_simps)
next
  case Final
  then show ?thesis
    by (auto simp add: final_worker_def Let_def service_completed_def schedule_work_def
        emit_simps cnt_finalize wq_finalize split: prod.split)
qed

text \<open>
  Modelled from the spec: the reactor (\<^verbatim>\<open>uev_run\<close>, libuEv) and the timers behind
  \<^verbatim>\<open>schedule_work\<close> are not in src. Section 4.1 and 5: a single thread runs each submitted
  item once, ordered by submission and timer expiry. \<^verbatim>\<open>crank\<close> has no delay and
  \<^verbatim>\<open>final\<close> a delay of 1000 ms, and \<^verbatim>\<open>final_worker\<close> resubmits only itself, so the items
  run in the order of the queue. The function returns when no work is pending, which is
  where the bootstrap code of this file has nothing left to run.
\<close>

function uev_run :: "env \<Rightarrow> state \<Rightarrow> state" where
  "uev_run env s =
     (case wq s of
        [] \<Rightarrow> s
      | w # ws \<Rightarrow> uev_run env (run_work env w (s\<lparr>wq := ws\<rparr>)))"
  by pat_completeness auto
termination
proof (relation "measure (\<lambda>(env, s). length (wq s) + nat (cnt s))")
  show "wf (measure (\<lambda>(env, s). length (wq s) + nat (cnt s)))" by simp
next
  fix env :: env and s :: state and w ws
  assume "wq s = w # ws"
  moreover have "length (wq (run_work env w (s\<lparr>wq := ws\<rparr>))) + nat (cnt (run_work env w (s\<lparr>wq := ws\<rparr>)))
      \<le> length (wq (s\<lparr>wq := ws\<rparr>)) + nat (cnt (s\<lparr>wq := ws\<rparr>))"
    by (rule run_work_measure)
  ultimately show "((env, run_work env w (s\<lparr>wq := ws\<rparr>)), (env, s))
      \<in> measure (\<lambda>(env, s). length (wq s) + nat (cnt s))"
    by simp
qed

declare uev_run.simps [simp del]

section \<open>main\<close>

text \<open>
  Modelled from the spec: \<^verbatim>\<open>conf_parse_cmdline\<close>, \<^verbatim>\<open>conf_init\<close> (conf.c) and
  \<^verbatim>\<open>cond_init\<close>, \<^verbatim>\<open>cond_set_oneshot\<close> (cond.c) are not in src. The kernel command line
  sets the rescue flag; the configuration sets the run-parts directory and the configured
  runlevel, which otherwise keeps its compiled default (section 3); the condition store
  exists once initialised, \<open>setOneshot\<close> marks a name as set and \<open>isSet\<close> is a pure
  query (section 4.3).
\<close>

definition conf_parse_cmdline :: "env \<Rightarrow> state \<Rightarrow> state" where
  "conf_parse_cmdline env s = (emit ConfParseCmdline s)\<lparr>rescue := kernel_rescue env\<rparr>"

definition conf_init :: "env \<Rightarrow> state \<Rightarrow> state" where
  "conf_init env s =
     (emit ConfInit s)\<lparr>runparts := conf_runparts env,
        cfglevel := (case conf_cfglevel env of None \<Rightarrow> cfglevel s | Some l \<Rightarrow> l)\<rparr>"

definition cond_init :: "state \<Rightarrow> state" where
  "cond_init s = (emit CondInit s)\<lparr>conds := Some []\<rparr>"

definition cond_set_oneshot :: "string \<Rightarrow> state \<Rightarrow> state" where
  "cond_set_oneshot name s =
     (emit (CondSetOneshot name) s)\<lparr>conds := map_option (\<lambda>cs. List.insert name cs) (conds s)\<rparr>"

definition cond_is_set :: "string \<Rightarrow> state \<Rightarrow> bool" where
  "cond_is_set name s = (case conds s of None \<Rightarrow> False | Some cs \<Rightarrow> name \<in> set cs)"

text \<open>The globals as initialised in lines 54-64, and \<^verbatim>\<open>static int cnt = 120\<close>.\<close>

definition init_state :: "env \<Rightarrow> state" where
  "init_state env =
     \<lparr>trace = [], cnt = 120, rescue = False, runparts = None, cfglevel = RUNLEVEL env,
      wq = [], conds = None\<rparr>"

text \<open>\<^verbatim>\<open>main\<close>, lines 351-374: from the command line to the canvas.\<close>

definition main_early :: "env \<Rightarrow> state \<Rightarrow> state" where
  "main_early env s0 =
     (let s1 = emit UevInit1 (conf_parse_cmdline env s0);
          s2 = emit (Setenv ''SHELL'' (PATH_BSHELL env)) (emit (Setenv ''PATH'' (PATH_STDPATH env)) s1);
          s3 = emit (Umask 0) (emit (Chdir ''/'') s2)
      in if \<not> rescue s3 \<and> \<not> log_is_debug env then emit ScreenInit s3 else s3)"

text \<open>\<^verbatim>\<open>main\<close>, lines 381-443: from loading the plugins to the call of \<^verbatim>\<open>uev_run\<close>.\<close>

definition main_boot :: "env \<Rightarrow> state \<Rightarrow> state" where
  "main_boot env s0 =
     (let s1 = banner env (emit PluginInit s0);
          s2 = emit CgroupInit (emit SigInit s1);
          s3 = fs_init env s2;
          s4 = conf_init env s3;
          s5 = cond_init s4;
          s6 = cond_set_oneshot (plugin_hook_str env HOOK_BANNER) s5;
          s7 = cond_set_oneshot (plugin_hook_str env HOOK_ROOTFS_UP) s6;
          s8 = emit SigSetup s7;
          s9 = plugin_run_hooks env HOOK_BASEFS_UP (emit (Dbg ''Base FS up, calling hooks ...'') s8);
          s10 = emit ConfMonitor s9;
          s11 = emit (Umask 18) (emit ApiInit (emit (Dbg ''Starting initctl API responder ...'') s10));
          s12 = schedule_work Crank (emit (Dbg ''Starting the big state machine ...'') s11);
          s13 = schedule_work Final (emit (Dbg ''Starting bootstrap finalize timer ...'') s12)
      in emit UevRun (emit (Dbg ''Entering main loop ...'') s13))"

text \<open>
  \<^verbatim>\<open>main\<close> up to the call of \<^verbatim>\<open>uev_run\<close> (lines 355-443), with \<^verbatim>\<open>emergency_shell\<close>
  between the two parts.
\<close>

definition main_sync :: "env \<Rightarrow> state \<Rightarrow> state outcome option" where
  "main_sync env s =
     (case emergency_shell env (main_early env s) of
        None \<Rightarrow> None
      | Some (Replaced s') \<Rightarrow> Some (Replaced s')
      | Some (Returns s') \<Rightarrow> Some (Returns (main_boot env s')))"

text \<open>
  \<^verbatim>\<open>main\<close> (lines 333-444). A process other than PID 1 is the client. \<open>Returns\<close> is
  the client having returned, or the reactor having run all submitted work.
\<close>

definition main :: "env \<Rightarrow> state \<Rightarrow> state outcome option" where
  "main env s =
     (if getpid env \<noteq> 1 then Some (Returns (emit Client s))
      else (case main_sync env s of
              None \<Rightarrow> None
            | Some (Replaced s') \<Rightarrow> Some (Replaced s')
            | Some (Returns s') \<Rightarrow> Some (Returns (uev_run env s'))))"

section \<open>Reading a trace\<close>

text \<open>
  What the theorems say about a run is read off its trace. \<open>new_events s s'\<close> are the
  events that were added on the way from \<open>s\<close> to \<open>s'\<close>; \<open>state_of\<close> is the state in
  which a function ended, however it ended.
\<close>

definition new_events :: "state \<Rightarrow> state \<Rightarrow> event list" where
  "new_events s s' = drop (length (trace s)) (trace s')"

fun state_of :: "'a outcome \<Rightarrow> 'a" where
  "state_of (Returns s) = s"
| "state_of (Replaced s) = s"

text \<open>
  The answers of the polls, in order; the number of runs of \<^verbatim>\<open>finalize\<close> (each run
  calls \<^verbatim>\<open>tty_runlevel\<close> once, and nothing else in the file does); and which of its two
  closing diagnostics \<^verbatim>\<open>final_worker\<close> printed.
\<close>

definition poll_results :: "event list \<Rightarrow> bool list" where
  "poll_results tr = concat (map (\<lambda>e. case e of ServiceCompleted b \<Rightarrow> [b] | _ \<Rightarrow> []) tr)"

definition finalize_calls :: "event list \<Rightarrow> nat" where
  "finalize_calls tr = length (filter (\<lambda>e. e = TtyRunlevel) tr)"

definition gate_verdicts :: "event list \<Rightarrow> string list" where
  "gate_verdicts tr = concat (map (\<lambda>e. case e of Dbg m \<Rightarrow>
      if m = ''All run/task have completed, resuming bootstrap.'' \<or> m = ''Timeout, resuming bootstrap.''
      then [m] else [] | _ \<Rightarrow> []) tr)"

text \<open>
  The hook points fired, in order; the events of the hooks (a hook point and the callbacks
  run for it); and what firing the hook point \<open>h\<close> leaves in the trace.
\<close>

definition hooks_fired :: "event list \<Rightarrow> hook list" where
  "hooks_fired tr = concat (map (\<lambda>e. case e of PluginRunHooks h \<Rightarrow> [h] | _ \<Rightarrow> []) tr)"

fun hook_event :: "event \<Rightarrow> bool" where
  "hook_event (PluginRunHooks h) = True"
| "hook_event (Callback h c) = True"
| "hook_event e = False"

definition hook_run :: "env \<Rightarrow> hook \<Rightarrow> event list" where
  "hook_run env h = PluginRunHooks h # map (Callback h) (plugins env h)"

text \<open>The steps of \<^verbatim>\<open>finalize\<close>: its calls other than the diagnostics, the callbacks and
  the stepping of the services.\<close>

fun finalize_step :: "event \<Rightarrow> bool" where
  "finalize_step (RunParts d) = True"
| "finalize_step (ServiceRunlevel l) = True"
| "finalize_step SvcPruneBootstrap = True"
| "finalize_step (PluginRunHooks h) = True"
| "finalize_step (RunInteractive c m) = True"
| "finalize_step LogSilent = True"
| "finalize_step TtyRunlevel = True"
| "finalize_step e = False"

text \<open>
  The calls that \<^verbatim>\<open>main\<close>, \<^verbatim>\<open>banner\<close> and \<^verbatim>\<open>fs_init\<close> make on every path, and the fork of
  the emergency shell: everything but the diagnostics, the callbacks, the commands of the
  filesystem checks and of the remount, and what the emergency shell does after the fork.
\<close>

fun sequencer_call :: "event \<Rightarrow> bool" where
  "sequencer_call (Dbg m) = False"
| "sequencer_call (DbgStr m xs) = False"
| "sequencer_call (DbgInt m i) = False"
| "sequencer_call (Pe m) = False"
| "sequencer_call (Print m) = False"
| "sequencer_call (Callback h c) = False"
| "sequencer_call (RunInteractive c m) = (c = ''mount -na'')"
| "sequencer_call (Waitpid i) = False"
| "sequencer_call (Fprintf m) = False"
| "sequencer_call Setsid = False"
| "sequencer_call IoctlTIOCSCTTY = False"
| "sequencer_call (Execl p) = False"
| "sequencer_call e = True"

text \<open>\<open>precedes a b tr\<close>: \<open>a\<close> occurs in \<open>tr\<close>, and \<open>b\<close> occurs after the first \<open>a\<close>.\<close>

definition precedes :: "event \<Rightarrow> event \<Rightarrow> event list \<Rightarrow> bool" where
  "precedes a b tr = (b \<in> set (tl (dropWhile (\<lambda>e. e \<noteq> a) tr)))"

section \<open>The filesystem checks in the spec's words\<close>

text \<open>
  Following the spec's words: a check pass fails when it reports failures; the passes that
  run are 1, 2, ... in ascending order, up to and including the first one that fails;
  running a list of passes runs them one after the other and keeps the status of the last.
  These are compared with \<open>fsck_all\<close>, which is the loop of the source.
\<close>

definition pass_fails :: "env \<Rightarrow> int \<Rightarrow> bool" where
  "pass_fails env p = (fst (fsck env p (init_state env)) \<noteq> 0)"

fun passes_run :: "env \<Rightarrow> int list \<Rightarrow> int list" where
  "passes_run env [] = []"
| "passes_run env (p # ps) = (if pass_fails env p then [p] else p # passes_run env ps)"

definition check_passes :: "env \<Rightarrow> int list \<Rightarrow> state \<Rightarrow> int \<times> state" where
  "check_passes env ps s = foldl (\<lambda>rs p. fsck env p (snd rs)) (0, s) ps"

text \<open>Whether \<^verbatim>\<open>fs_remount_root\<close> gets as far as the root entry of fstab and finds it
  not read-only: the condition under which it acts at all.\<close>

definition root_remountable :: "env \<Rightarrow> bool" where
  "root_remountable env =
     (setfsent_ok env \<and>
      (case find (\<lambda>fs. fs_file fs = ''/'') (fstab env) of
         None \<Rightarrow> False
       | Some fs \<Rightarrow> fs_type fs \<noteq> ''ro''))"

section \<open>Names for parts of a trace, used in the lemmas\<close>

text \<open>
  Three kinds of events that the lemmas set apart: those that none of the projections
  above keeps (\<open>noise\<close>), those of the filesystem checks (the \<^verbatim>\<open>fsck -a\<close> commands and
  the messages about skipped entries or an fstab that cannot be opened), and those of the
  two workers up to the call of \<^verbatim>\<open>finalize\<close>.
\<close>

fun noise :: "event \<Rightarrow> bool" where
  "noise (Dbg m) = True"
| "noise (DbgStr m xs) = True"
| "noise (DbgInt m i) = True"
| "noise (Pe m) = True"
| "noise (Print m) = True"
| "noise (RunInteractive c m) = (c \<noteq> ''mount -na'')"
| "noise (Waitpid i) = True"
| "noise (Fprintf m) = True"
| "noise Setsid = True"
| "noise IoctlTIOCSCTTY = True"
| "noise (Execl p) = True"
| "noise e = False"

fun fsck_event :: "event \<Rightarrow> bool" where
  "fsck_event (RunInteractive c m) = (take 8 c = ''fsck -a '')"
| "fsck_event (DbgStr m xs) = True"
| "fsck_event (Pe m) = True"
| "fsck_event e = False"

fun gate_event :: "event \<Rightarrow> bool" where
  "gate_event (Dbg m) = True"
| "gate_event (DbgInt m i) = True"
| "gate_event ServiceStepAll = True"
| "gate_event (ServiceCompleted b) = True"
| "gate_event (ScheduleWork w) = True"
| "gate_event SmInit = True"
| "gate_event SmStep = True"
| "gate_event e = False"

text \<open>
  The events of one round of \<^verbatim>\<open>final_worker\<close> that finds the work unfinished, entered
  with counter \<open>c\<close>, and of \<open>n\<close> such rounds in a row.
\<close>

definition failed_round :: "int \<Rightarrow> event list" where
  "failed_round c = [Dbg ''Step all services ...'', ServiceStepAll, ServiceCompleted False,
     DbgInt ''Not all bootstrap run/tasks have completed yet ... %d'' (c - 1), ScheduleWork Final]"

fun failed_rounds :: "nat \<Rightarrow> int \<Rightarrow> event list" where
  "failed_rounds 0 c = []"
| "failed_rounds (Suc n) c = failed_round c @ failed_rounds n (c - 1)"

text \<open>
  The events of \<^verbatim>\<open>fs_init\<close> after the checks and the remount of the root; those of
  \<^verbatim>\<open>main\<close> from \<^verbatim>\<open>conf_init\<close> to the call of \<^verbatim>\<open>uev_run\<close>; and those of
  \<^verbatim>\<open>emergency_shell\<close> after its loop (lines 227-237).
\<close>

definition mount_events :: "env \<Rightarrow> event list" where
  "mount_events env =
     [Dbg ''Root FS up, calling hooks ...'', PluginRunHooks HOOK_ROOTFS_UP] @
     map (Callback HOOK_ROOTFS_UP) (plugins env HOOK_ROOTFS_UP) @
     [RunInteractive ''mount -na'' ''Mounting filesystems''] @
     (if run_interactive_rc env ''mount -na'' \<noteq> 0
      then PluginRunHooks HOOK_MOUNT_ERROR # map (Callback HOOK_MOUNT_ERROR) (plugins env HOOK_MOUNT_ERROR)
      else []) @
     [Dbg ''Calling extra mount hook, after mount -a ...'', PluginRunHooks HOOK_MOUNT_POST] @
     map (Callback HOOK_MOUNT_POST) (plugins env HOOK_MOUNT_POST) @
     [Run ''swapon -ea'', Umask 18]"

definition conf_events :: "env \<Rightarrow> event list" where
  "conf_events env =
     [ConfInit, CondInit, CondSetOneshot (plugin_hook_str env HOOK_BANNER),
      CondSetOneshot (plugin_hook_str env HOOK_ROOTFS_UP), SigSetup,
      Dbg ''Base FS up, calling hooks ...'', PluginRunHooks HOOK_BASEFS_UP] @
     map (Callback HOOK_BASEFS_UP) (plugins env HOOK_BASEFS_UP) @
     [ConfMonitor, Dbg ''Starting initctl API responder ...'', ApiInit, Umask 18,
      Dbg ''Starting the big state machine ...'', ScheduleWork Crank,
      Dbg ''Starting bootstrap finalize timer ...'', ScheduleWork Final,
      Dbg ''Entering main loop ...'', UevRun]"

definition shell_events :: "env \<Rightarrow> event list" where
  "shell_events env =
     [Fprintf ''=> Embarrassingly, Finit has crashed.  Check /dev/kmsg for details.'',
      Fprintf ''=> To debug, add 'debug' to the kernel command line.'',
      Setsid, IoctlTIOCSCTTY, Execl (PATH_BSHELL env)]"

section \<open>Sample inputs\<close>

text \<open>
  A sample environment: PID 1, no emergency shell, no plugins, a root filesystem listed
  read-write in fstab with check pass 1, every command succeeding, nothing configured, and
  the bootstrap tasks done at the second poll. The other environments differ from it in
  what their names say.
\<close>

definition hook_name :: "hook \<Rightarrow> string" where
  "hook_name h = (case h of
       HOOK_BANNER \<Rightarrow> ''hook/banner'' | HOOK_ROOTFS_UP \<Rightarrow> ''hook/rootfs-up''
     | HOOK_MOUNT_ERROR \<Rightarrow> ''hook/mount-error'' | HOOK_MOUNT_POST \<Rightarrow> ''hook/mount-post''
     | HOOK_BASEFS_UP \<Rightarrow> ''hook/basefs-up'' | HOOK_SVC_UP \<Rightarrow> ''hook/svc-up''
     | HOOK_SYSTEM_UP \<Rightarrow> ''hook/system-up'')"

definition env0 :: env where
  "env0 =
     \<lparr>INIT_HEADING = ''Finit'', FINIT_RC_LOCAL = ''/etc/rc.local'', RUNLEVEL = 2,
      PATH_STDPATH = ''/usr/bin:/bin:/usr/sbin:/sbin'', PATH_BSHELL = ''/bin/sh'',
      EMERGENCY_SHELL = False, getpid = 1, kernel_rescue = False, log_is_debug = False,
      log_is_silent = False, fork_ret = 0, waitpid_ret = (\<lambda>i. 0), execl_fails = False,
      plugins = (\<lambda>h. []), plugin_hook_str = hook_name, setfsent_ok = True,
      fstab = [\<lparr>fs_spec = ''/dev/sda1'', fs_file = ''/'', fs_type = ''rw'', fs_passno = 1\<rparr>],
      stat_isblk = (\<lambda>p. True), string_match = (\<lambda>a b. False), ismnt_rw = (\<lambda>p. False),
      run_interactive_rc = (\<lambda>c. 0), conf_runparts = None, conf_cfglevel = None,
      fisdir = (\<lambda>p. False), access_x = (\<lambda>p. False),
      service_completed_at = (\<lambda>k. 2 \<le> k)\<rparr>"

text \<open>The bootstrap tasks never done, done from the start, and done at poll 120.\<close>

definition env_never :: env where
  "env_never = env0\<lparr>service_completed_at := (\<lambda>k. False)\<rparr>"

definition env_done :: env where
  "env_done = env0\<lparr>service_completed_at := (\<lambda>k. True)\<rparr>"

definition env_last :: env where
  "env_last = env0\<lparr>service_completed_at := (\<lambda>k. 120 \<le> k)\<rparr>"

text \<open>Every directory and executable asked for is on disk.\<close>

definition env_disk :: env where
  "env_disk = env0\<lparr>fisdir := (\<lambda>p. True), access_x := (\<lambda>p. True)\<rparr>"

text \<open>Two callbacks on the banner hook, and \<^verbatim>\<open>mount -na\<close> failing.\<close>

definition env_plugins :: env where
  "env_plugins = env0\<lparr>plugins := (\<lambda>h. if h = HOOK_BANNER then [1, 2] else []),
     run_interactive_rc := (\<lambda>c. if c = ''mount -na'' then 32 else 0)\<rparr>"

text \<open>The check of the root device failing with status 4; the same with the root listed
  read-only.\<close>

definition env_fsck_fails :: env where
  "env_fsck_fails = env0\<lparr>run_interactive_rc := (\<lambda>c. if c = ''fsck -a /dev/sda1'' then 4 else 0)\<rparr>"

definition env_ro_root :: env where
  "env_ro_root = env_fsck_fails\<lparr>fstab :=
     [\<lparr>fs_spec = ''/dev/sda1'', fs_file = ''/'', fs_type = ''ro'', fs_passno = 1\<rparr>]\<rparr>"

text \<open>
  The emergency shell compiled in: the child of the fork, the parent whose child (pid 42)
  is reported by the second \<^verbatim>\<open>waitpid\<close>, and a parent whose child never ends.
\<close>

definition env_child :: env where
  "env_child = env0\<lparr>EMERGENCY_SHELL := True, fork_ret := 0\<rparr>"

definition env_parent :: env where
  "env_parent = env0\<lparr>EMERGENCY_SHELL := True, fork_ret := 42,
     waitpid_ret := (\<lambda>i. if i = 0 then 0 else 42)\<rparr>"

definition env_parent_waits :: env where
  "env_parent_waits = env0\<lparr>EMERGENCY_SHELL := True, fork_ret := 42, waitpid_ret := (\<lambda>i. 0)\<rparr>"

text \<open>
  States: the bootstrap timer pending with a budget of three polls; a spent counter; and
  rescue mode with a run-parts directory configured.
\<close>

definition gate3 :: state where
  "gate3 = \<lparr>trace = [], cnt = 3, rescue = False, runparts = None, cfglevel = 2,
     wq = [Final], conds = None\<rparr>"

definition spent :: state where
  "spent = \<lparr>trace = [], cnt = 0, rescue = False, runparts = None, cfglevel = 2,
     wq = [], conds = None\<rparr>"

definition rescue_state :: state where
  "rescue_state = \<lparr>trace = [], cnt = 120, rescue = True, runparts = Some ''/etc/start.d'',
     cfglevel = 2, wq = [], conds = None\<rparr>"

section \<open>Lemmas about the functions of the file\<close>

lemma final_worker_again:
  assumes "0 < cnt s" and "\<not> service_completed_at env (Suc (npolls (trace s)))"
  shows "final_worker env s =
    s\<lparr>trace := trace s @ [Dbg ''Step all services ...'', ServiceStepAll, ServiceCompleted False,
         DbgInt ''Not all bootstrap run/tasks have completed yet ... %d'' (cnt s - 1),
         ScheduleWork Final],
      cnt := cnt s - 1, wq := wq s @ [Final]\<rparr>"
  using assms
  by (simp add: final_worker_def Let_def service_completed_def schedule_work_def emit_def npolls_def)

lemma final_worker_done:
  assumes "0 < cnt s" and "service_completed_at env (Suc (npolls (trace s)))"
  shows "final_worker env s =
    finalize env (s\<lparr>cnt := cnt s - 1,
      trace := trace s @ [Dbg ''Step all services ...'', ServiceStepAll, ServiceCompleted True,
         Dbg (if 1 < cnt s then ''All run/task have completed, resuming bootstrap.''
              else ''Timeout, resuming bootstrap.'')]\<rparr>)"
  using assms
  by (simp add: final_worker_def Let_def service_completed_def schedule_work_def emit_def npolls_def)

lemma final_worker_exhausted:
  assumes "cnt s \<le> 0"
  shows "final_worker env s =
    finalize env (s\<lparr>cnt := cnt s - 1,
      trace := trace s @ [Dbg ''Step all services ...'', ServiceStepAll,
         Dbg ''Timeout, resuming bootstrap.'']\<rparr>)"
  using assms
  by (simp add: final_worker_def Let_def service_completed_def schedule_work_def emit_def npolls_def)

lemma uev_run_Nil: "wq s = [] \<Longrightarrow> uev_run env s = s"
  by (simp add: uev_run.simps)

lemma uev_run_Cons: "wq s = w # ws \<Longrightarrow> uev_run env s = uev_run env (run_work env w (s\<lparr>wq := ws\<rparr>))"
  by (subst uev_run.simps) simp

lemma npolls_Nil: "npolls [] = 0"
  by (simp add: npolls_def)

lemma npolls_append: "npolls (xs @ ys) = npolls xs + npolls ys"
  by (simp add: npolls_def)

lemma npolls_failed_round: "npolls (failed_round c) = 1"
  by (simp add: npolls_def failed_round_def)

lemma uev_run_failed_round:
  assumes "wq s = [Final]" and "0 < cnt s" and "\<not> service_completed_at env (Suc (npolls (trace s)))"
  shows "uev_run env s = uev_run env (s\<lparr>trace := trace s @ failed_round (cnt s), cnt := cnt s - 1\<rparr>)"
proof -
  have "uev_run env s = uev_run env (final_worker env (s\<lparr>wq := []\<rparr>))"
    using assms(1) by (simp add: uev_run_Cons)
  also have "final_worker env (s\<lparr>wq := []\<rparr>)
      = s\<lparr>trace := trace s @ failed_round (cnt s), cnt := cnt s - 1\<rparr>"
    using assms by (simp add: final_worker_again failed_round_def)
  finally show ?thesis .
qed

lemma npolls_failed_rounds: "npolls (failed_rounds n c) = n"
  by (induction n arbitrary: c) (simp_all add: npolls_append npolls_failed_round npolls_Nil)

lemma uev_run_failed_rounds:
  assumes "wq s = [Final]" and "int n \<le> cnt s"
    and "\<forall>j. 1 \<le> j \<and> j \<le> n \<longrightarrow> \<not> service_completed_at env (npolls (trace s) + j)"
  shows "uev_run env s =
    uev_run env (s\<lparr>trace := trace s @ failed_rounds n (cnt s), cnt := cnt s - int n\<rparr>)"
  using assms
proof (induction n arbitrary: s)
  case 0
  then show ?case by simp
next
  case (Suc n)
  let ?s = "s\<lparr>trace := trace s @ failed_round (cnt s), cnt := cnt s - 1\<rparr>"
  have first: "\<not> service_completed_at env (Suc (npolls (trace s)))"
    using Suc.prems(3) [rule_format, of 1] by simp
  have step: "uev_run env s = uev_run env ?s"
    using Suc.prems first by (intro uev_run_failed_round) auto
  have rest: "\<forall>j. 1 \<le> j \<and> j \<le> n \<longrightarrow> \<not> service_completed_at env (npolls (trace ?s) + j)"
  proof (intro allI impI)
    fix j assume "1 \<le> j \<and> j \<le> n"
    then have "\<not> service_completed_at env (npolls (trace s) + Suc j)"
      using Suc.prems(3) [rule_format, of "Suc j"] by simp
    then show "\<not> service_completed_at env (npolls (trace ?s) + j)"
      by (simp add: npolls_append npolls_failed_round)
  qed
  have "uev_run env ?s =
      uev_run env (?s\<lparr>trace := trace ?s @ failed_rounds n (cnt ?s), cnt := cnt ?s - int n\<rparr>)"
    using Suc.prems rest by (intro Suc.IH) auto
  with step show ?case by (simp add: algebra_simps)
qed

lemma uev_run_done:
  assumes "wq s = [Final]" and "0 < cnt s" and "service_completed_at env (Suc (npolls (trace s)))"
  shows "uev_run env s =
    finalize env (s\<lparr>wq := [], cnt := cnt s - 1,
      trace := trace s @ [Dbg ''Step all services ...'', ServiceStepAll, ServiceCompleted True,
         Dbg (if 1 < cnt s then ''All run/task have completed, resuming bootstrap.''
              else ''Timeout, resuming bootstrap.'')]\<rparr>)"
proof -
  have "uev_run env s = uev_run env (final_worker env (s\<lparr>wq := []\<rparr>))"
    using assms(1) by (simp add: uev_run_Cons)
  also have "\<dots> = final_worker env (s\<lparr>wq := []\<rparr>)"
    using assms by (intro uev_run_Nil) (simp add: final_worker_done wq_finalize)
  finally show ?thesis using assms by (simp add: final_worker_done)
qed

lemma uev_run_exhausted:
  assumes "wq s = [Final]" and "cnt s \<le> 0"
  shows "uev_run env s =
    finalize env (s\<lparr>wq := [], cnt := cnt s - 1,
      trace := trace s @ [Dbg ''Step all services ...'', ServiceStepAll,
         Dbg ''Timeout, resuming bootstrap.'']\<rparr>)"
proof -
  have "uev_run env s = uev_run env (final_worker env (s\<lparr>wq := []\<rparr>))"
    using assms(1) by (simp add: uev_run_Cons)
  also have "\<dots> = final_worker env (s\<lparr>wq := []\<rparr>)"
    using assms by (intro uev_run_Nil) (simp add: final_worker_exhausted wq_finalize)
  finally show ?thesis using assms by (simp add: final_worker_exhausted)
qed

lemma poll_results_append: "poll_results (xs @ ys) = poll_results xs @ poll_results ys"
  by (simp add: poll_results_def)

lemma poll_results_Cons: "poll_results (e # xs) = poll_results [e] @ poll_results xs"
  by (simp add: poll_results_def)

lemma poll_results_Nil: "poll_results [] = []"
  by (simp add: poll_results_def)

lemma poll_results_callbacks: "poll_results (map (Callback h) cs) = []"
  by (induction cs) (simp_all add: poll_results_def)

lemma length_poll_results: "length (poll_results tr) = npolls tr"
proof (induction tr)
  case Nil
  then show ?case by (simp add: poll_results_def npolls_def)
next
  case (Cons e tr)
  then show ?case by (cases e) (simp_all add: poll_results_def npolls_def)
qed

lemma poll_results_failed_rounds: "poll_results (failed_rounds n c) = replicate n False"
  by (induction n arbitrary: c)
     (simp_all add: poll_results_append poll_results_Nil, simp add: poll_results_def failed_round_def)

lemma finalize_calls_append: "finalize_calls (xs @ ys) = finalize_calls xs + finalize_calls ys"
  by (simp add: finalize_calls_def)

lemma finalize_calls_callbacks: "finalize_calls (map (Callback h) cs) = 0"
  by (induction cs) (simp_all add: finalize_calls_def)

lemma finalize_calls_failed_rounds: "finalize_calls (failed_rounds n c) = 0"
  by (induction n arbitrary: c)
     (simp_all add: finalize_calls_append, simp_all add: finalize_calls_def failed_round_def)

lemma poll_results_finalize: "poll_results (trace (finalize env s)) = poll_results (trace s)"
  by (simp add: finalize_def Let_def run_interactive_def emit_simps plugin_run_hooks_simps
      poll_results_append poll_results_callbacks poll_results_Cons [of _ "map f xs" for f xs]
      split: option.split)
     (simp add: poll_results_def)

lemma finalize_calls_finalize:
  "finalize_calls (trace (finalize env s)) = finalize_calls (trace s) + 1"
  by (simp add: finalize_def Let_def run_interactive_def emit_simps plugin_run_hooks_simps
      finalize_calls_append split: option.split)
     (simp add: finalize_calls_def)

lemma gate_timeout:
  assumes "0 \<le> cnt s" and "wq s = [Final]" and "npolls (trace s) = 0"
    and "\<forall>j. 1 \<le> j \<and> j \<le> nat (cnt s) \<longrightarrow> \<not> service_completed_at env j"
  shows "uev_run env s =
    finalize env (s\<lparr>wq := [], cnt := - 1,
      trace := trace s @ failed_rounds (nat (cnt s)) (cnt s) @
        [Dbg ''Step all services ...'', ServiceStepAll, Dbg ''Timeout, resuming bootstrap.'']\<rparr>)"
proof -
  let ?s = "s\<lparr>trace := trace s @ failed_rounds (nat (cnt s)) (cnt s), cnt := cnt s - int (nat (cnt s))\<rparr>"
  have "uev_run env s = uev_run env ?s"
    using assms by (intro uev_run_failed_rounds) auto
  also have "\<dots> = finalize env (?s\<lparr>wq := [], cnt := cnt ?s - 1,
      trace := trace ?s @ [Dbg ''Step all services ...'', ServiceStepAll,
         Dbg ''Timeout, resuming bootstrap.'']\<rparr>)"
    using assms by (intro uev_run_exhausted) auto
  finally show ?thesis using assms(1) by simp
qed

lemma gate_success:
  assumes "1 \<le> k" and "int k \<le> cnt s" and "wq s = [Final]" and "npolls (trace s) = 0"
    and "service_completed_at env k"
    and "\<forall>j. 1 \<le> j \<and> j < k \<longrightarrow> \<not> service_completed_at env j"
  shows "uev_run env s =
    finalize env (s\<lparr>wq := [], cnt := cnt s - int k,
      trace := trace s @ failed_rounds (k - 1) (cnt s) @
        [Dbg ''Step all services ...'', ServiceStepAll, ServiceCompleted True,
         Dbg (if int k < cnt s then ''All run/task have completed, resuming bootstrap.''
              else ''Timeout, resuming bootstrap.'')]\<rparr>)"
proof -
  let ?s = "s\<lparr>trace := trace s @ failed_rounds (k - 1) (cnt s), cnt := cnt s - int (k - 1)\<rparr>"
  have "uev_run env s = uev_run env ?s"
    using assms by (intro uev_run_failed_rounds) auto
  also have "\<dots> = finalize env (?s\<lparr>wq := [], cnt := cnt ?s - 1,
      trace := trace ?s @ [Dbg ''Step all services ...'', ServiceStepAll, ServiceCompleted True,
         Dbg (if 1 < cnt ?s then ''All run/task have completed, resuming bootstrap.''
              else ''Timeout, resuming bootstrap.'')]\<rparr>)"
    using assms by (intro uev_run_done) (auto simp: npolls_append npolls_failed_rounds)
  finally show ?thesis using assms(1,2) by (simp add: algebra_simps)
qed

lemma npolls_0_poll_results: "npolls tr = 0 \<Longrightarrow> poll_results tr = []"
  using length_poll_results [of tr] by simp

lemma filter_finalize_step_callbacks: "filter finalize_step (map (Callback h) cs) = []"
  by (induction cs) simp_all

lemma trace_finalize:
  "trace (finalize env s) = trace s @
     (case runparts s of None \<Rightarrow> [] | Some dir \<Rightarrow> if fisdir env dir \<and> \<not> rescue s then [RunParts dir] else []) @
     [Dbg ''Change to default runlevel, start all services ...'', ServiceRunlevel (cfglevel s),
      Dbg ''Clean up all bootstrap-only tasks/services ...'', SvcPruneBootstrap,
      Dbg ''Running svc up hooks ...'', PluginRunHooks HOOK_SVC_UP] @
     map (Callback HOOK_SVC_UP) (plugins env HOOK_SVC_UP) @ [ServiceStepAll] @
     (if access_x env (FINIT_RC_LOCAL env) \<and> \<not> rescue s
      then [RunInteractive (FINIT_RC_LOCAL env) (''Calling '' @ FINIT_RC_LOCAL env)] else []) @
     [Dbg ''Calling all system up hooks ...'', PluginRunHooks HOOK_SYSTEM_UP] @
     map (Callback HOOK_SYSTEM_UP) (plugins env HOOK_SYSTEM_UP) @
     [ServiceStepAll, Dbg ''Going silent ...'', LogSilent,
      Dbg ''Launching all getty services ...'', TtyRunlevel]"
  by (simp add: finalize_def Let_def run_interactive_def emit_simps plugin_run_hooks_simps
      split: option.split)

lemma gate_verdicts_append: "gate_verdicts (xs @ ys) = gate_verdicts xs @ gate_verdicts ys"
  by (simp add: gate_verdicts_def)

lemma gate_verdicts_callbacks: "gate_verdicts (map (Callback h) cs) = []"
  by (induction cs) (simp_all add: gate_verdicts_def)

lemma gate_verdicts_failed_rounds: "gate_verdicts (failed_rounds n c) = []"
  by (induction n arbitrary: c)
     (simp_all add: gate_verdicts_append, simp_all add: gate_verdicts_def failed_round_def)

lemma gate_verdicts_finalize: "gate_verdicts (trace (finalize env s)) = gate_verdicts (trace s)"
  by (simp add: trace_finalize gate_verdicts_append gate_verdicts_callbacks split: option.split)
     (simp add: gate_verdicts_def)

lemma noise_projections:
  assumes "list_all noise post"
  shows "filter sequencer_call post = []" and "hooks_fired post = []"
    and "finalize_calls post = 0" and "poll_results post = []"
  using assms
proof (induction post)
  case Nil
  {
    case 1 show ?case by simp
  next
    case 2 show ?case by (simp add: hooks_fired_def)
  next
    case 3 show ?case by (simp add: finalize_calls_def)
  next
    case 4 show ?case by (simp add: poll_results_def)
  }
next
  case (Cons e post)
  {
    case 1 then show ?case using Cons.IH(1) by (cases e) simp_all
  next
    case 2 then show ?case using Cons.IH(2) by (cases e) (simp_all add: hooks_fired_def)
  next
    case 3 then show ?case using Cons.IH(3) by (cases e) (simp_all add: finalize_calls_def)
  next
    case 4 then show ?case using Cons.IH(4) by (cases e) (simp_all add: poll_results_def)
  }
qed

lemma fsck_event_noise: "list_all fsck_event post \<Longrightarrow> list_all noise post"
proof (induction post)
  case Nil
  then show ?case by simp
next
  case (Cons e post)
  then show ?case by (cases e) auto
qed

lemma fsck_ents_shape:
  "\<exists>post. list_all fsck_event post \<and>
     snd (fsck_ents env pass ents rc s) = s\<lparr>trace := trace s @ post\<rparr>"
proof (induction ents arbitrary: rc s)
  case Nil
  have "list_all fsck_event [] \<and> snd (fsck_ents env pass [] rc s) = s\<lparr>trace := trace s @ []\<rparr>"
    by simp
  then show ?case by blast
next
  case (Cons fs ents)
  show ?case
  proof (cases "fs_passno fs \<noteq> pass")
    case True
    then show ?thesis using Cons.IH [of rc s] by simp
  next
    case match: False
    show ?thesis
    proof (cases "\<not> stat_isblk env (fs_spec fs) \<and> \<not> string_match env (fs_spec fs) ''UUID=''
              \<and> \<not> string_match env (fs_spec fs) ''LABEL=''")
      case True
      let ?e = "DbgStr ''Cannot fsck %s, not a block device: %s'' [fs_spec fs]"
      obtain post where "list_all fsck_event post"
        and "snd (fsck_ents env pass ents rc (emit ?e s)) = (emit ?e s)\<lparr>trace := trace (emit ?e s) @ post\<rparr>"
        using Cons.IH [of rc "emit ?e s"] by blast
      then have "list_all fsck_event (?e # post) \<and>
          snd (fsck_ents env pass (fs # ents) rc s) = s\<lparr>trace := trace s @ ?e # post\<rparr>"
        using match True by (simp add: emit_def)
      then show ?thesis by blast
    next
      case blk: False
      show ?thesis
      proof (cases "ismnt_rw env (fs_file fs)")
        case True
        let ?e = "DbgStr ''Skipping fsck of %s, already mounted rw on %s.'' [fs_spec fs, fs_file fs]"
        obtain post where "list_all fsck_event post"
          and "snd (fsck_ents env pass ents rc (emit ?e s)) = (emit ?e s)\<lparr>trace := trace (emit ?e s) @ post\<rparr>"
          using Cons.IH [of rc "emit ?e s"] by blast
        then have "list_all fsck_event (?e # post) \<and>
            snd (fsck_ents env pass (fs # ents) rc s) = s\<lparr>trace := trace s @ ?e # post\<rparr>"
          using match blk True by (auto simp add: emit_def)
        then show ?thesis by blast
      next
        case False
        let ?c = "take 79 (''fsck -a '' @ fs_spec fs)"
        let ?e = "RunInteractive ?c (''Checking filesystem '' @ take 13 (fs_spec fs))"
        obtain post where "list_all fsck_event post"
          and "snd (fsck_ents env pass ents (rc + run_interactive_rc env ?c) (emit ?e s))
               = (emit ?e s)\<lparr>trace := trace (emit ?e s) @ post\<rparr>"
          using Cons.IH [of "rc + run_interactive_rc env ?c" "emit ?e s"] by blast
        then have "list_all fsck_event (?e # post) \<and>
            snd (fsck_ents env pass (fs # ents) rc s) = s\<lparr>trace := trace s @ ?e # post\<rparr>"
          using match blk False by (auto simp add: emit_def run_interactive_def)
        then show ?thesis by blast
      qed
    qed
  qed
qed

declare fsck_loop.simps [simp del]

lemma fst_fsck_ents:
  "fst (fsck_ents env pass ents rc s) = fst (fsck_ents env pass ents rc s')"
  by (induction ents arbitrary: rc s s') (simp_all add: run_interactive_def)

lemma fst_fsck: "fst (fsck env pass s) = fst (fsck env pass s')"
  using fst_fsck_ents by (simp add: fsck_def)

lemma fsck_shape:
  "\<exists>post. list_all fsck_event post \<and> snd (fsck env pass s) = s\<lparr>trace := trace s @ post\<rparr>"
proof (cases "setfsent_ok env")
  case True
  then show ?thesis using fsck_ents_shape [of env pass "fstab env" 0 s] by (simp add: fsck_def)
next
  case False
  then have "list_all fsck_event [Pe ''Failed opening fstab''] \<and>
      snd (fsck env pass s) = s\<lparr>trace := trace s @ [Pe ''Failed opening fstab'']\<rparr>"
    by (simp add: fsck_def emit_def)
  then show ?thesis by blast
qed

lemma fsck_loop_shape:
  "\<exists>post. list_all fsck_event post \<and> snd (fsck_loop env pass rc s) = s\<lparr>trace := trace s @ post\<rparr>"
proof (induction env pass rc s rule: fsck_loop.induct)
  case (1 env pass rc s)
  show ?case
  proof (cases "pass < 10")
    case False
    then have "list_all fsck_event [] \<and> snd (fsck_loop env pass rc s) = s\<lparr>trace := trace s @ []\<rparr>"
      by (simp add: fsck_loop.simps)
    then show ?thesis by blast
  next
    case True
    obtain rc' s' where f: "fsck env pass s = (rc', s')"
      by (cases "fsck env pass s")
    obtain p1 where p1: "list_all fsck_event p1" "s' = s\<lparr>trace := trace s @ p1\<rparr>"
      using fsck_shape [of env pass s] f by auto
    show ?thesis
    proof (cases "rc' \<noteq> 0")
      case True
      then have "snd (fsck_loop env pass rc s) = s'"
        using \<open>pass < 10\<close> f by (simp add: fsck_loop.simps)
      with p1 show ?thesis by blast
    next
      case False
      then have eq: "fsck_loop env pass rc s = fsck_loop env (pass + 1) rc' s'"
        using \<open>pass < 10\<close> f by (subst fsck_loop.simps) simp
      obtain p2 where p2: "list_all fsck_event p2"
          "snd (fsck_loop env (pass + 1) rc' s') = s'\<lparr>trace := trace s' @ p2\<rparr>"
        using "1.IH" [OF \<open>pass < 10\<close> f [symmetric]] False by blast
      have "list_all fsck_event (p1 @ p2) \<and>
          snd (fsck_loop env pass rc s) = s\<lparr>trace := trace s @ p1 @ p2\<rparr>"
        using p1 p2 eq by simp
      then show ?thesis by blast
    qed
  qed
qed

lemma fs_remount_root_shape:
  "\<exists>post. list_all noise post \<and> fs_remount_root env fsckerr s = s\<lparr>trace := trace s @ post\<rparr>"
proof -
  have "fs_remount_root env fsckerr s = s\<lparr>trace := trace s @ []\<rparr>
      \<or> fs_remount_root env fsckerr s
           = s\<lparr>trace := trace s @ [Print ''Cannot remount / as read-write, fsck failed before'']\<rparr>
      \<or> fs_remount_root env fsckerr s
           = s\<lparr>trace := trace s @ [RunInteractive ''mount -n -o remount,rw /''
                 ''Remounting / as read-write'']\<rparr>"
    by (simp add: fs_remount_root_def run_interactive_def emit_def split: option.split)
  moreover have "list_all noise []"
    and "list_all noise [Print ''Cannot remount / as read-write, fsck failed before'']"
    and "list_all noise [RunInteractive ''mount -n -o remount,rw /'' ''Remounting / as read-write'']"
    by simp_all
  ultimately show ?thesis by blast
qed

lemma fsck_all_events:
  "\<exists>post. list_all fsck_event post \<and> snd (fsck_all env s) = s\<lparr>trace := trace s @ post\<rparr>"
  using fsck_loop_shape by (simp add: fsck_all_def)

lemma fsck_all_shape:
  "\<exists>post. list_all noise post \<and> snd (fsck_all env s) = s\<lparr>trace := trace s @ post\<rparr>"
  using fsck_all_events fsck_event_noise by blast

lemma sequencer_call_callbacks: "filter sequencer_call (map (Callback h) cs) = []"
  by (induction cs) simp_all

lemma hooks_fired_append: "hooks_fired (xs @ ys) = hooks_fired xs @ hooks_fired ys"
  by (simp add: hooks_fired_def)

lemma hooks_fired_callbacks: "hooks_fired (map (Callback h) cs) = []"
  by (induction cs) (simp_all add: hooks_fired_def)

lemma fs_init_after_checks:
  "fs_init env s =
     (let s1 = (if \<not> rescue s
                then fs_remount_root env (fst (fsck_all env s)) (snd (fsck_all env s))
                else s)
      in s1\<lparr>trace := trace s1 @ mount_events env\<rparr>)"
  by (simp add: fs_init_def Let_def mount_events_def run_interactive_def emit_def
      plugin_run_hooks_def split: prod.split)

lemma fs_init_shape:
  "\<exists>post. list_all noise post \<and> fs_init env s = s\<lparr>trace := trace s @ post @ mount_events env\<rparr>"
proof (cases "rescue s")
  case True
  then have "list_all noise [] \<and> fs_init env s = s\<lparr>trace := trace s @ [] @ mount_events env\<rparr>"
    by (simp add: fs_init_after_checks)
  then show ?thesis by blast
next
  case False
  obtain p1 where p1: "list_all noise p1" "snd (fsck_all env s) = s\<lparr>trace := trace s @ p1\<rparr>"
    using fsck_all_shape by blast
  obtain p2 where p2: "list_all noise p2"
    "fs_remount_root env (fst (fsck_all env s)) (snd (fsck_all env s))
       = (snd (fsck_all env s))\<lparr>trace := trace (snd (fsck_all env s)) @ p2\<rparr>"
    using fs_remount_root_shape by blast
  have "list_all noise (p1 @ p2) \<and>
      fs_init env s = s\<lparr>trace := trace s @ (p1 @ p2) @ mount_events env\<rparr>"
    using False p1 p2 by (simp add: fs_init_after_checks)
  then show ?thesis by blast
qed

lemma reap_shape:
  assumes "reap env pid i s = Some s'"
  shows "\<exists>post. list_all noise post \<and> s' = s\<lparr>trace := trace s @ post\<rparr>"
  using assms
proof (induction env pid i s s' rule: reap.raw_induct [rotated 1, consumes 1])
  case (1 reap' env pid i s s')
  let ?e = "Waitpid (waitpid_ret env i)"
  show ?case
  proof (cases "waitpid_ret env i = pid")
    case True
    then have "list_all noise [?e] \<and> s' = s\<lparr>trace := trace s @ [?e]\<rparr>"
      using 1(2) by (auto simp add: emit_def)
    then show ?thesis by blast
  next
    case False
    then have "reap' env pid (Suc i) (emit ?e s) = Some s'"
      using 1(2) by simp
    then obtain post where "list_all noise post"
      and "s' = (emit ?e s)\<lparr>trace := trace (emit ?e s) @ post\<rparr>"
      using 1(1) by blast
    then have "list_all noise (?e # post) \<and> s' = s\<lparr>trace := trace s @ ?e # post\<rparr>"
      by (simp add: emit_def)
    then show ?thesis by blast
  qed
qed

lemma emergency_shell_shape:
  assumes "emergency_shell env s = Some (Returns s')"
  shows "\<exists>post. list_all noise post \<and>
    s' = s\<lparr>trace := trace s @ (if EMERGENCY_SHELL env then [Fork (fork_ret env)] else []) @ post\<rparr>"
proof (cases "EMERGENCY_SHELL env")
  case False
  then have "list_all noise [] \<and>
      s' = s\<lparr>trace := trace s @ (if EMERGENCY_SHELL env then [Fork (fork_ret env)] else []) @ []\<rparr>"
    using assms by (simp add: emergency_shell_def)
  then show ?thesis by blast
next
  case on: True
  show ?thesis
  proof (cases "fork_ret env = 0")
    case True
    then have "list_all noise [] \<and>
        s' = s\<lparr>trace := trace s @ (if EMERGENCY_SHELL env then [Fork (fork_ret env)] else []) @ []\<rparr>"
      using assms on by (simp add: emergency_shell_def emit_def)
    then show ?thesis by blast
  next
    case False
    let ?s1 = "emit (Fork (fork_ret env)) s"
    let ?tail = "[Fprintf ''=> Embarrassingly, Finit has crashed.  Check /dev/kmsg for details.'',
        Fprintf ''=> To debug, add 'debug' to the kernel command line.'',
        Setsid, IoctlTIOCSCTTY, Execl (PATH_BSHELL env)]"
    obtain s2 where s2: "reap env (fork_ret env) 0 ?s1 = Some s2"
      using assms on False by (cases "reap env (fork_ret env) 0 ?s1") (simp_all add: emergency_shell_def Let_def)
    then have s': "s' = s2\<lparr>trace := trace s2 @ ?tail\<rparr>"
      using assms on False by (simp add: emergency_shell_def Let_def emit_def split: if_splits)
    obtain post where post: "list_all noise post" "s2 = ?s1\<lparr>trace := trace ?s1 @ post\<rparr>"
      using reap_shape [OF s2] by blast
    have "list_all noise (post @ ?tail) \<and>
        s' = s\<lparr>trace := trace s @ (if EMERGENCY_SHELL env then [Fork (fork_ret env)] else []) @ post @ ?tail\<rparr>"
      using post s' on by (simp add: emit_def)
    then show ?thesis by blast
  qed
qed

lemma gate_event_projections:
  assumes "list_all gate_event post"
  shows "hooks_fired post = []" and "finalize_calls post = 0"
  using assms
proof (induction post)
  case Nil
  {
    case 1 show ?case by (simp add: hooks_fired_def)
  next
    case 2 show ?case by (simp add: finalize_calls_def)
  }
next
  case (Cons e post)
  {
    case 1 then show ?case using Cons.IH(1) by (cases e) (simp_all add: hooks_fired_def)
  next
    case 2 then show ?case using Cons.IH(2) by (cases e) (simp_all add: finalize_calls_def)
  }
qed

lemma uev_run_final_any:
  assumes "wq s = [Final]"
  shows "\<exists>c post. list_all gate_event post \<and>
    uev_run env s = finalize env (s\<lparr>wq := [], cnt := c, trace := trace s @ post\<rparr>)"
  using assms
proof (induction "nat (cnt s)" arbitrary: s rule: less_induct)
  case less
  show ?case
  proof (cases "cnt s \<le> 0")
    case True
    let ?post = "[Dbg ''Step all services ...'', ServiceStepAll, Dbg ''Timeout, resuming bootstrap.'']"
    have "list_all gate_event ?post \<and>
        uev_run env s = finalize env (s\<lparr>wq := [], cnt := cnt s - 1, trace := trace s @ ?post\<rparr>)"
      using uev_run_exhausted [OF less.prems True] by simp
    then show ?thesis by blast
  next
    case pos: False
    show ?thesis
    proof (cases "service_completed_at env (Suc (npolls (trace s)))")
      case True
      let ?post = "[Dbg ''Step all services ...'', ServiceStepAll, ServiceCompleted True,
         Dbg (if 1 < cnt s then ''All run/task have completed, resuming bootstrap.''
              else ''Timeout, resuming bootstrap.'')]"
      have "list_all gate_event ?post \<and>
          uev_run env s = finalize env (s\<lparr>wq := [], cnt := cnt s - 1, trace := trace s @ ?post\<rparr>)"
        using uev_run_done [OF less.prems _ True] pos by simp
      then show ?thesis by blast
    next
      case False
      let ?s1 = "s\<lparr>trace := trace s @ failed_round (cnt s), cnt := cnt s - 1\<rparr>"
      have step: "uev_run env s = uev_run env ?s1"
        using uev_run_failed_round [OF less.prems _ False] pos by simp
      have "nat (cnt ?s1) < nat (cnt s)" and "wq ?s1 = [Final]"
        using pos less.prems by simp_all
      then obtain c post where post: "list_all gate_event post"
        and run: "uev_run env ?s1 = finalize env (?s1\<lparr>wq := [], cnt := c, trace := trace ?s1 @ post\<rparr>)"
        using less.hyps [of ?s1] by blast
      have "list_all gate_event (failed_round (cnt s) @ post) \<and>
          uev_run env s = finalize env (s\<lparr>wq := [], cnt := c, trace := trace s @ failed_round (cnt s) @ post\<rparr>)"
        using post run step by (simp add: failed_round_def)
      then show ?thesis by blast
    qed
  qed
qed

lemma uev_run_crank_final_any:
  assumes "wq s = [Crank, Final]"
  shows "\<exists>c post. list_all gate_event post \<and>
    uev_run env s = finalize env (s\<lparr>wq := [], cnt := c, trace := trace s @ post\<rparr>)"
proof -
  let ?s1 = "s\<lparr>wq := [Final], trace := trace s @ [SmInit, SmStep]\<rparr>"
  have "uev_run env s = uev_run env (crank_worker (s\<lparr>wq := [Final]\<rparr>))"
    using assms by (simp add: uev_run_Cons)
  also have "crank_worker (s\<lparr>wq := [Final]\<rparr>) = ?s1"
    by (simp add: crank_worker_def emit_def)
  finally have step: "uev_run env s = uev_run env ?s1" .
  obtain c post where post: "list_all gate_event post"
    and run: "uev_run env ?s1 = finalize env (?s1\<lparr>wq := [], cnt := c, trace := trace ?s1 @ post\<rparr>)"
    using uev_run_final_any [of ?s1 env] by auto
  have "list_all gate_event ([SmInit, SmStep] @ post) \<and>
      uev_run env s = finalize env (s\<lparr>wq := [], cnt := c, trace := trace s @ [SmInit, SmStep] @ post\<rparr>)"
    using post run step by simp
  then show ?thesis by blast
qed

lemma trace_banner:
  "trace (banner env s) = trace s @ PluginRunHooks HOOK_BANNER #
     map (Callback HOOK_BANNER) (plugins env HOOK_BANNER) @
     (if log_is_silent env then [] else [PrintBanner (INIT_HEADING env)])"
  and cnt_banner: "cnt (banner env s) = cnt s"
  and wq_banner: "wq (banner env s) = wq s"
  and rescue_banner: "rescue (banner env s) = rescue s"
  and runparts_banner: "runparts (banner env s) = runparts s"
  and cfglevel_banner: "cfglevel (banner env s) = cfglevel s"
  and conds_banner: "conds (banner env s) = conds s"
  by (simp_all add: banner_def Let_def emit_def plugin_run_hooks_def)

lemma trace_main_early:
  "trace (main_early env s) = trace s @
     [ConfParseCmdline, UevInit1, Setenv ''PATH'' (PATH_STDPATH env),
      Setenv ''SHELL'' (PATH_BSHELL env), Chdir ''/'', Umask 0] @
     (if \<not> kernel_rescue env \<and> \<not> log_is_debug env then [ScreenInit] else [])"
  and cnt_main_early: "cnt (main_early env s) = cnt s"
  and wq_main_early: "wq (main_early env s) = wq s"
  and rescue_main_early: "rescue (main_early env s) = kernel_rescue env"
  and runparts_main_early: "runparts (main_early env s) = runparts s"
  and cfglevel_main_early: "cfglevel (main_early env s) = cfglevel s"
  and conds_main_early: "conds (main_early env s) = conds s"
  by (simp_all add: main_early_def conf_parse_cmdline_def Let_def emit_def)

lemma main_boot_shape:
  "\<exists>post. list_all noise post \<and>
     trace (main_boot env s) = trace s @ [PluginInit, PluginRunHooks HOOK_BANNER] @
       map (Callback HOOK_BANNER) (plugins env HOOK_BANNER) @
       (if log_is_silent env then [] else [PrintBanner (INIT_HEADING env)]) @
       [SigInit, CgroupInit] @ post @ mount_events env @ conf_events env"
proof -
  let ?s2 = "emit CgroupInit (emit SigInit (banner env (emit PluginInit s)))"
  obtain post where post: "list_all noise post"
    and eq: "fs_init env ?s2 = ?s2\<lparr>trace := trace ?s2 @ post @ mount_events env\<rparr>"
    using fs_init_shape by blast
  have "trace (main_boot env s) = trace s @ [PluginInit, PluginRunHooks HOOK_BANNER] @
       map (Callback HOOK_BANNER) (plugins env HOOK_BANNER) @
       (if log_is_silent env then [] else [PrintBanner (INIT_HEADING env)]) @
       [SigInit, CgroupInit] @ post @ mount_events env @ conf_events env"
    apply (simp only: main_boot_def Let_def eq)
    apply (simp add: conf_events_def trace_banner conf_init_def cond_init_def cond_set_oneshot_def
        schedule_work_def emit_def plugin_run_hooks_def)
    done
  with post show ?thesis by blast
qed

lemma fields_fs_init:
  "cnt (fs_init env s) = cnt s" "wq (fs_init env s) = wq s" "rescue (fs_init env s) = rescue s"
  "runparts (fs_init env s) = runparts s" "cfglevel (fs_init env s) = cfglevel s"
  "conds (fs_init env s) = conds s"
proof -
  obtain post where "fs_init env s = s\<lparr>trace := trace s @ post @ mount_events env\<rparr>"
    using fs_init_shape by blast
  then show "cnt (fs_init env s) = cnt s" "wq (fs_init env s) = wq s"
    "rescue (fs_init env s) = rescue s" "runparts (fs_init env s) = runparts s"
    "cfglevel (fs_init env s) = cfglevel s" "conds (fs_init env s) = conds s"
    by simp_all
qed

lemma fields_main_boot:
  "cnt (main_boot env s) = cnt s"
  "wq (main_boot env s) = wq s @ [Crank, Final]"
  "rescue (main_boot env s) = rescue s"
  "runparts (main_boot env s) = conf_runparts env"
  "cfglevel (main_boot env s) = (case conf_cfglevel env of None \<Rightarrow> cfglevel s | Some l \<Rightarrow> l)"
  "conds (main_boot env s) =
     Some (List.insert (plugin_hook_str env HOOK_ROOTFS_UP) [plugin_hook_str env HOOK_BANNER])"
  by (simp_all add: main_boot_def Let_def conf_init_def cond_init_def cond_set_oneshot_def
      schedule_work_def emit_simps plugin_run_hooks_simps fields_fs_init cnt_banner wq_banner
      rescue_banner runparts_banner cfglevel_banner conds_banner split: option.split)

lemma main_sync_Returns:
  assumes "main_sync env s = Some (Returns s')"
  shows "\<exists>s1. emergency_shell env (main_early env s) = Some (Returns s1) \<and> s' = main_boot env s1"
  using assms by (simp add: main_sync_def split: option.splits outcome.splits)

lemma main_sync_shape:
  assumes "main_sync env s = Some (Returns s')"
  shows "\<exists>p1 p2. list_all noise p1 \<and> list_all noise p2 \<and>
     trace s' = trace s @
       [ConfParseCmdline, UevInit1, Setenv ''PATH'' (PATH_STDPATH env),
        Setenv ''SHELL'' (PATH_BSHELL env), Chdir ''/'', Umask 0] @
       (if \<not> kernel_rescue env \<and> \<not> log_is_debug env then [ScreenInit] else []) @
       (if EMERGENCY_SHELL env then [Fork (fork_ret env)] else []) @ p1 @
       [PluginInit, PluginRunHooks HOOK_BANNER] @
       map (Callback HOOK_BANNER) (plugins env HOOK_BANNER) @
       (if log_is_silent env then [] else [PrintBanner (INIT_HEADING env)]) @
       [SigInit, CgroupInit] @ p2 @ mount_events env @ conf_events env"
    and "cnt s' = cnt s" and "wq s' = wq s @ [Crank, Final]"
    and "rescue s' = kernel_rescue env" and "runparts s' = conf_runparts env"
    and "cfglevel s' = (case conf_cfglevel env of None \<Rightarrow> cfglevel s | Some l \<Rightarrow> l)"
    and "conds s' =
     Some (List.insert (plugin_hook_str env HOOK_ROOTFS_UP) [plugin_hook_str env HOOK_BANNER])"
proof -
  obtain s1 where s1: "emergency_shell env (main_early env s) = Some (Returns s1)"
    and s': "s' = main_boot env s1"
    using main_sync_Returns [OF assms] by blast
  obtain p1 where p1: "list_all noise p1"
    and s1_eq: "s1 = (main_early env s)\<lparr>trace := trace (main_early env s) @
        (if EMERGENCY_SHELL env then [Fork (fork_ret env)] else []) @ p1\<rparr>"
    using emergency_shell_shape [OF s1] by blast
  obtain p2 where p2: "list_all noise p2"
    and tr: "trace (main_boot env s1) = trace s1 @ [PluginInit, PluginRunHooks HOOK_BANNER] @
       map (Callback HOOK_BANNER) (plugins env HOOK_BANNER) @
       (if log_is_silent env then [] else [PrintBanner (INIT_HEADING env)]) @
       [SigInit, CgroupInit] @ p2 @ mount_events env @ conf_events env"
    using main_boot_shape by blast
  have "trace s1 = trace s @
       [ConfParseCmdline, UevInit1, Setenv ''PATH'' (PATH_STDPATH env),
        Setenv ''SHELL'' (PATH_BSHELL env), Chdir ''/'', Umask 0] @
       (if \<not> kernel_rescue env \<and> \<not> log_is_debug env then [ScreenInit] else []) @
       (if EMERGENCY_SHELL env then [Fork (fork_ret env)] else []) @ p1"
    by (subst s1_eq) (simp add: trace_main_early)
  with tr s' p1 p2 show "\<exists>p1 p2. list_all noise p1 \<and> list_all noise p2 \<and>
     trace s' = trace s @
       [ConfParseCmdline, UevInit1, Setenv ''PATH'' (PATH_STDPATH env),
        Setenv ''SHELL'' (PATH_BSHELL env), Chdir ''/'', Umask 0] @
       (if \<not> kernel_rescue env \<and> \<not> log_is_debug env then [ScreenInit] else []) @
       (if EMERGENCY_SHELL env then [Fork (fork_ret env)] else []) @ p1 @
       [PluginInit, PluginRunHooks HOOK_BANNER] @
       map (Callback HOOK_BANNER) (plugins env HOOK_BANNER) @
       (if log_is_silent env then [] else [PrintBanner (INIT_HEADING env)]) @
       [SigInit, CgroupInit] @ p2 @ mount_events env @ conf_events env"
    by (intro exI [of _ p1] exI [of _ p2]) simp
  have f: "cnt s1 = cnt s" "wq s1 = wq s" "rescue s1 = kernel_rescue env"
    "runparts s1 = runparts s" "cfglevel s1 = cfglevel s"
    by (subst s1_eq, simp add: cnt_main_early wq_main_early rescue_main_early
        runparts_main_early cfglevel_main_early)+
  show "cnt s' = cnt s" and "wq s' = wq s @ [Crank, Final]"
    and "rescue s' = kernel_rescue env" and "runparts s' = conf_runparts env"
    and "cfglevel s' = (case conf_cfglevel env of None \<Rightarrow> cfglevel s | Some l \<Rightarrow> l)"
    and "conds s' =
     Some (List.insert (plugin_hook_str env HOOK_ROOTFS_UP) [plugin_hook_str env HOOK_BANNER])"
    by (simp_all add: s' fields_main_boot f split: option.split)
qed

lemma emergency_shell_shape_any:
  assumes "emergency_shell env s = Some out"
  shows "\<exists>post. list_all noise post \<and>
    state_of out = s\<lparr>trace := trace s @ (if EMERGENCY_SHELL env then [Fork (fork_ret env)] else []) @ post\<rparr>"
proof (cases "EMERGENCY_SHELL env")
  case False
  then have "list_all noise [] \<and>
      state_of out = s\<lparr>trace := trace s @ (if EMERGENCY_SHELL env then [Fork (fork_ret env)] else []) @ []\<rparr>"
    using assms by (auto simp add: emergency_shell_def)
  then show ?thesis by blast
next
  case on: True
  show ?thesis
  proof (cases "fork_ret env = 0")
    case True
    then have "list_all noise [] \<and>
        state_of out = s\<lparr>trace := trace s @ (if EMERGENCY_SHELL env then [Fork (fork_ret env)] else []) @ []\<rparr>"
      using assms on by (auto simp add: emergency_shell_def emit_def)
    then show ?thesis by blast
  next
    case False
    let ?s1 = "emit (Fork (fork_ret env)) s"
    let ?tail = "[Fprintf ''=> Embarrassingly, Finit has crashed.  Check /dev/kmsg for details.'',
        Fprintf ''=> To debug, add 'debug' to the kernel command line.'',
        Setsid, IoctlTIOCSCTTY, Execl (PATH_BSHELL env)]"
    obtain s2 where s2: "reap env (fork_ret env) 0 ?s1 = Some s2"
      using assms on False by (cases "reap env (fork_ret env) 0 ?s1") (simp_all add: emergency_shell_def Let_def)
    then have s': "state_of out = s2\<lparr>trace := trace s2 @ ?tail\<rparr>"
      using assms on False by (auto simp add: emergency_shell_def Let_def emit_def split: if_splits)
    obtain post where post: "list_all noise post" "s2 = ?s1\<lparr>trace := trace ?s1 @ post\<rparr>"
      using reap_shape [OF s2] by blast
    have "list_all noise (post @ ?tail) \<and>
        state_of out = s\<lparr>trace := trace s @ (if EMERGENCY_SHELL env then [Fork (fork_ret env)] else []) @ post @ ?tail\<rparr>"
      using post s' on by (simp add: emit_def)
    then show ?thesis by blast
  qed
qed

lemma noise_hook_event: "list_all noise post \<Longrightarrow> filter hook_event post = []"
proof (induction post)
  case Nil
  then show ?case by simp
next
  case (Cons e post)
  then show ?case by (cases e) simp_all
qed

lemma gate_event_hook_event: "list_all gate_event post \<Longrightarrow> filter hook_event post = []"
proof (induction post)
  case Nil
  then show ?case by simp
next
  case (Cons e post)
  then show ?case by (cases e) simp_all
qed

lemma noise_not_CondInit: "list_all noise post \<Longrightarrow> \<forall>e\<in>set post. e \<noteq> CondInit"
  by (induction post) auto

lemma main_Returns:
  assumes "getpid env = 1" and "main env s = Some (Returns s')"
  shows "\<exists>s0. main_sync env s = Some (Returns s0) \<and> s' = uev_run env s0"
  using assms by (simp add: main_def split: option.splits outcome.splits)

lemma main_run_shape:
  assumes "getpid env = 1" and "wq s = []" and "main env s = Some (Returns s')"
  shows "\<exists>s0 c post. main_sync env s = Some (Returns s0) \<and> list_all gate_event post \<and>
     s' = finalize env (s0\<lparr>wq := [], cnt := c, trace := trace s0 @ post\<rparr>)"
proof -
  obtain s0 where s0: "main_sync env s = Some (Returns s0)" and s': "s' = uev_run env s0"
    using main_Returns [OF assms(1,3)] by blast
  have "wq s0 = [Crank, Final]"
    using main_sync_shape(3) [OF s0] assms(2) by simp
  then obtain c post where "list_all gate_event post"
    and "uev_run env s0 = finalize env (s0\<lparr>wq := [], cnt := c, trace := trace s0 @ post\<rparr>)"
    using uev_run_crank_final_any by blast
  with s0 s' show ?thesis by blast
qed

lemma filter_hook_event_mount_events:
  "filter hook_event (mount_events env) =
     hook_run env HOOK_ROOTFS_UP @
     (if run_interactive_rc env ''mount -na'' \<noteq> 0 then hook_run env HOOK_MOUNT_ERROR else []) @
     hook_run env HOOK_MOUNT_POST"
  by (simp add: mount_events_def hook_run_def filter_map comp_def)

lemma filter_hook_event_conf_events:
  "filter hook_event (conf_events env) = hook_run env HOOK_BASEFS_UP"
  by (simp add: conf_events_def hook_run_def filter_map comp_def)

lemma filter_hook_event_finalize:
  "filter hook_event (trace (finalize env s)) =
     filter hook_event (trace s) @ hook_run env HOOK_SVC_UP @ hook_run env HOOK_SYSTEM_UP"
  by (simp add: trace_finalize hook_run_def filter_map comp_def split: option.split)

lemma main_without_emergency_shell:
  assumes "getpid env = 1" and "\<not> EMERGENCY_SHELL env"
  shows "main env s = Some (Returns (uev_run env (main_boot env (main_early env s))))"
  using assms by (simp add: main_def main_sync_def emergency_shell_def)

lemma filter_sequencer_call_mount_events:
  "filter sequencer_call (mount_events env) =
     [PluginRunHooks HOOK_ROOTFS_UP, RunInteractive ''mount -na'' ''Mounting filesystems''] @
     (if run_interactive_rc env ''mount -na'' \<noteq> 0 then [PluginRunHooks HOOK_MOUNT_ERROR] else []) @
     [PluginRunHooks HOOK_MOUNT_POST, Run ''swapon -ea'', Umask 18]"
  by (simp add: mount_events_def sequencer_call_callbacks)

lemma filter_sequencer_call_conf_events:
  "filter sequencer_call (conf_events env) =
     [ConfInit, CondInit, CondSetOneshot (plugin_hook_str env HOOK_BANNER),
      CondSetOneshot (plugin_hook_str env HOOK_ROOTFS_UP), SigSetup,
      PluginRunHooks HOOK_BASEFS_UP, ConfMonitor, ApiInit, Umask 18,
      ScheduleWork Crank, ScheduleWork Final, UevRun]"
  by (simp add: conf_events_def sequencer_call_callbacks)

lemma finalize_calls_Nil: "finalize_calls [] = 0"
  and finalize_calls_Cons:
    "finalize_calls (e # tr) = (if e = TtyRunlevel then 1 else 0) + finalize_calls tr"
  by (simp_all add: finalize_calls_def)

lemma finalize_calls_mount_events: "finalize_calls (mount_events env) = 0"
  by (simp add: mount_events_def finalize_calls_def filter_map comp_def)

lemma finalize_calls_conf_events: "finalize_calls (conf_events env) = 0"
  by (simp add: conf_events_def finalize_calls_def filter_map comp_def)

lemma finalize_calls_main_sync:
  assumes "main_sync env s = Some out"
  shows "finalize_calls (trace (state_of out)) = finalize_calls (trace s)"
proof (cases out)
  case (Returns s')
  then obtain p1 p2 where p: "list_all noise p1" "list_all noise p2"
    and tr: "trace s' = trace s @
       [ConfParseCmdline, UevInit1, Setenv ''PATH'' (PATH_STDPATH env),
        Setenv ''SHELL'' (PATH_BSHELL env), Chdir ''/'', Umask 0] @
       (if \<not> kernel_rescue env \<and> \<not> log_is_debug env then [ScreenInit] else []) @
       (if EMERGENCY_SHELL env then [Fork (fork_ret env)] else []) @ p1 @
       [PluginInit, PluginRunHooks HOOK_BANNER] @
       map (Callback HOOK_BANNER) (plugins env HOOK_BANNER) @
       (if log_is_silent env then [] else [PrintBanner (INIT_HEADING env)]) @
       [SigInit, CgroupInit] @ p2 @ mount_events env @ conf_events env"
    using main_sync_shape(1) [of env s s'] assms by blast
  show ?thesis
    by (simp add: Returns tr finalize_calls_append noise_projections(3) [OF p(1)]
        noise_projections(3) [OF p(2)] finalize_calls_mount_events finalize_calls_conf_events
        finalize_calls_callbacks finalize_calls_Nil finalize_calls_Cons)
next
  case (Replaced s')
  then have "emergency_shell env (main_early env s) = Some (Replaced s')"
    using assms by (simp add: main_sync_def split: option.splits outcome.splits)
  then obtain post where post: "list_all noise post"
    and "state_of (Replaced s') = (main_early env s)\<lparr>trace := trace (main_early env s) @
        (if EMERGENCY_SHELL env then [Fork (fork_ret env)] else []) @ post\<rparr>"
    using emergency_shell_shape_any by blast
  then have "trace s' = trace (main_early env s) @
        (if EMERGENCY_SHELL env then [Fork (fork_ret env)] else []) @ post"
    by simp
  then show ?thesis
    by (simp add: Replaced trace_main_early finalize_calls_append noise_projections(3) [OF post]
        finalize_calls_Nil finalize_calls_Cons)
qed

lemma hooks_fired_Nil: "hooks_fired [] = []"
  and hooks_fired_Cons:
    "hooks_fired (e # tr) = (case e of PluginRunHooks h \<Rightarrow> [h] | _ \<Rightarrow> []) @ hooks_fired tr"
  by (simp_all add: hooks_fired_def)

lemma hooks_fired_mount_events:
  "hooks_fired (mount_events env) =
     [HOOK_ROOTFS_UP] @ (if run_interactive_rc env ''mount -na'' \<noteq> 0 then [HOOK_MOUNT_ERROR] else []) @
     [HOOK_MOUNT_POST]"
  by (simp add: mount_events_def hooks_fired_append hooks_fired_callbacks hooks_fired_Nil
      hooks_fired_Cons)

lemma finalize_trace_ex:
  "\<exists>fin. trace (finalize env s) = trace s @ fin \<and> hooks_fired fin = [HOOK_SVC_UP, HOOK_SYSTEM_UP]"
proof -
  let ?fin = "(case runparts s of None \<Rightarrow> [] | Some dir \<Rightarrow> if fisdir env dir \<and> \<not> rescue s then [RunParts dir] else []) @
     [Dbg ''Change to default runlevel, start all services ...'', ServiceRunlevel (cfglevel s),
      Dbg ''Clean up all bootstrap-only tasks/services ...'', SvcPruneBootstrap,
      Dbg ''Running svc up hooks ...'', PluginRunHooks HOOK_SVC_UP] @
     map (Callback HOOK_SVC_UP) (plugins env HOOK_SVC_UP) @ [ServiceStepAll] @
     (if access_x env (FINIT_RC_LOCAL env) \<and> \<not> rescue s
      then [RunInteractive (FINIT_RC_LOCAL env) (''Calling '' @ FINIT_RC_LOCAL env)] else []) @
     [Dbg ''Calling all system up hooks ...'', PluginRunHooks HOOK_SYSTEM_UP] @
     map (Callback HOOK_SYSTEM_UP) (plugins env HOOK_SYSTEM_UP) @
     [ServiceStepAll, Dbg ''Going silent ...'', LogSilent,
      Dbg ''Launching all getty services ...'', TtyRunlevel]"
  have "trace (finalize env s) = trace s @ ?fin"
    by (simp add: trace_finalize)
  moreover have "hooks_fired ?fin = [HOOK_SVC_UP, HOOK_SYSTEM_UP]"
    by (simp add: hooks_fired_append hooks_fired_callbacks hooks_fired_Nil hooks_fired_Cons
        split: option.split)
  ultimately show ?thesis by blast
qed

lemma CondInit_notin_mount_events: "CondInit \<notin> set (mount_events env)"
  by (auto simp add: mount_events_def)

lemma pass_fails_fsck: "pass_fails env p = (fst (fsck env p s) \<noteq> 0)"
  using fst_fsck [of env p "init_state env" s] by (simp add: pass_fails_def)

lemma fsck_loop_passes:
  "fsck_loop env p rc s = foldl (\<lambda>rs q. fsck env q (snd rs)) (rc, s) (passes_run env [p..9])"
proof (induction env p rc s rule: fsck_loop.induct)
  case (1 env pass rc s)
  show ?case
  proof (cases "pass < 10")
    case False
    then show ?thesis by (simp add: fsck_loop.simps)
  next
    case True
    then have up: "[pass..9] = pass # [pass + 1..9]"
      by (simp add: upto_rec1)
    obtain rc' s' where f: "fsck env pass s = (rc', s')"
      by (cases "fsck env pass s")
    have pf: "pass_fails env pass = (rc' \<noteq> 0)"
      using pass_fails_fsck [of env pass s] f by simp
    show ?thesis
    proof (cases "rc' \<noteq> 0")
      case True
      then show ?thesis
        using \<open>pass < 10\<close> f pf up by (simp add: fsck_loop.simps)
    next
      case False
      then have "fsck_loop env pass rc s = fsck_loop env (pass + 1) rc' s'"
        using \<open>pass < 10\<close> f by (subst fsck_loop.simps) simp
      also have "\<dots> = foldl (\<lambda>rs q. fsck env q (snd rs)) (rc', s') (passes_run env [pass + 1..9])"
        using "1.IH" [OF \<open>pass < 10\<close> f [symmetric]] False by simp
      finally show ?thesis
        using f pf up False by simp
    qed
  qed
qed

lemma passes_run_upto:
  assumes "p \<le> 9"
  shows "\<exists>k. p \<le> k \<and> k \<le> 9 \<and> passes_run env [p..9] = [p..k]
     \<and> (\<forall>q. p \<le> q \<and> q < k \<longrightarrow> \<not> pass_fails env q)
     \<and> (k < 9 \<longrightarrow> pass_fails env k)"
  using assms
proof (induction "nat (9 - p)" arbitrary: p)
  case 0
  then have "p = 9" by simp
  then have "passes_run env [p..9] = [p..9]"
    by (simp add: upto_rec1)
  then show ?case using \<open>p = 9\<close> by auto
next
  case (Suc n)
  then have lt: "p < 9" by simp
  then have up: "[p..9] = p # [p + 1..9]"
    by (simp add: upto_rec1)
  show ?case
  proof (cases "pass_fails env p")
    case True
    then have "passes_run env [p..9] = [p..p]"
      using up by simp
    then show ?thesis using True lt by (intro exI [of _ p]) auto
  next
    case False
    have "n = nat (9 - (p + 1))" and "p + 1 \<le> 9"
      using Suc.hyps(2) lt by simp_all
    then obtain k where k: "p + 1 \<le> k" "k \<le> 9" "passes_run env [p + 1..9] = [p + 1..k]"
      "\<forall>q. p + 1 \<le> q \<and> q < k \<longrightarrow> \<not> pass_fails env q" "k < 9 \<longrightarrow> pass_fails env k"
      using Suc.hyps(1) [of "p + 1"] by blast
    have "passes_run env [p..9] = p # [p + 1..k]"
      using up False k(3) by simp
    also have "\<dots> = [p..k]"
      using k(1) by (simp add: upto_rec1)
    finally have "passes_run env [p..9] = [p..k]" .
    moreover have "\<forall>q. p \<le> q \<and> q < k \<longrightarrow> \<not> pass_fails env q"
    proof (intro allI impI)
      fix q assume "p \<le> q \<and> q < k"
      then show "\<not> pass_fails env q"
        using False k(4) by (cases "q = p") auto
    qed
    ultimately show ?thesis using k by (intro exI [of _ k]) auto
  qed
qed

lemma fs_remount_root_failed:
  assumes "fsckerr \<noteq> 0"
  shows "fs_remount_root env fsckerr s =
     s\<lparr>trace := trace s @
        (if root_remountable env
         then [Print ''Cannot remount / as read-write, fsck failed before''] else [])\<rparr>"
  using assms
  by (simp add: fs_remount_root_def root_remountable_def emit_def split: option.split)

lemma fs_init_fsck_failed:
  assumes "\<not> rescue s" and "fst (fsck_all env s) \<noteq> 0"
  shows "\<exists>p1. list_all fsck_event p1 \<and>
     new_events s (fs_init env s) = p1 @
        (if root_remountable env
         then [Print ''Cannot remount / as read-write, fsck failed before''] else []) @
        mount_events env"
proof -
  obtain p1 where p1: "list_all fsck_event p1"
    and eq: "snd (fsck_all env s) = s\<lparr>trace := trace s @ p1\<rparr>"
    using fsck_all_events by blast
  have "new_events s (fs_init env s) = p1 @
        (if root_remountable env
         then [Print ''Cannot remount / as read-write, fsck failed before''] else []) @
        mount_events env"
    using assms by (simp add: fs_init_after_checks fs_remount_root_failed eq new_events_def)
  with p1 show ?thesis by blast
qed

lemma fsck_event_member: "list_all fsck_event p \<Longrightarrow> e \<in> set p \<Longrightarrow> fsck_event e"
  by (simp add: list_all_iff)

lemma reap_found:
  assumes "waitpid_ret env (i + n) = pid" and "\<forall>j<n. waitpid_ret env (i + j) \<noteq> pid"
  shows "reap env pid i s =
     Some (s\<lparr>trace := trace s @ map (\<lambda>j. Waitpid (waitpid_ret env j)) [i..<Suc (i + n)]\<rparr>)"
  using assms
proof (induction n arbitrary: i s)
  case 0
  then show ?case by (subst reap.simps) (simp add: emit_def)
next
  case (Suc n)
  let ?s1 = "emit (Waitpid (waitpid_ret env i)) s"
  have ne: "waitpid_ret env i \<noteq> pid"
    using Suc.prems(2) [rule_format, of 0] by simp
  have "waitpid_ret env (Suc i + n) = pid"
    using Suc.prems(1) by simp
  moreover have "\<forall>j<n. waitpid_ret env (Suc i + j) \<noteq> pid"
  proof (intro allI impI)
    fix j assume "j < n"
    then show "waitpid_ret env (Suc i + j) \<noteq> pid"
      using Suc.prems(2) [rule_format, of "Suc j"] by simp
  qed
  ultimately have "reap env pid (Suc i) ?s1 =
     Some (?s1\<lparr>trace := trace ?s1 @ map (\<lambda>j. Waitpid (waitpid_ret env j)) [Suc i..<Suc (Suc i + n)]\<rparr>)"
    by (rule Suc.IH)
  moreover have "reap env pid i s = reap env pid (Suc i) ?s1"
    using ne by (subst reap.simps) simp
  moreover have "[i..<Suc (i + Suc n)] = i # [Suc i..<Suc (Suc i + n)]"
    by (simp add: upt_conv_Cons)
  ultimately show ?case by (simp add: emit_def)
qed

lemma reap_Some_found:
  assumes "reap env pid i s = Some s'"
  shows "\<exists>j\<ge>i. waitpid_ret env j = pid"
  using assms
proof (induction env pid i s s' rule: reap.raw_induct [rotated 1, consumes 1])
  case (1 reap' env pid i s s')
  show ?case
  proof (cases "waitpid_ret env i = pid")
    case True
    then show ?thesis by blast
  next
    case False
    then have "reap' env pid (Suc i) (emit (Waitpid (waitpid_ret env i)) s) = Some s'"
      using 1(2) by simp
    then obtain j where "Suc i \<le> j" and "waitpid_ret env j = pid"
      using 1(1) by blast
    then have "i \<le> j \<and> waitpid_ret env j = pid" by simp
    then show ?thesis by blast
  qed
qed

lemma reap_never:
  assumes "\<forall>j. waitpid_ret env j \<noteq> pid"
  shows "reap env pid i s = None"
proof (cases "reap env pid i s")
  case None
  then show ?thesis .
next
  case (Some s')
  then show ?thesis using reap_Some_found assms by blast
qed

lemma emergency_shell_parent:
  assumes "EMERGENCY_SHELL env" and "fork_ret env \<noteq> 0"
    and "waitpid_ret env n = fork_ret env" and "\<forall>j<n. waitpid_ret env j \<noteq> fork_ret env"
  shows "emergency_shell env s =
     Some ((if execl_fails env then Returns else Replaced)
       (s\<lparr>trace := trace s @ Fork (fork_ret env) #
            map (\<lambda>j. Waitpid (waitpid_ret env j)) [0..<Suc n] @ shell_events env\<rparr>))"
proof -
  let ?s1 = "emit (Fork (fork_ret env)) s"
  have "reap env (fork_ret env) 0 ?s1 =
     Some (?s1\<lparr>trace := trace ?s1 @ map (\<lambda>j. Waitpid (waitpid_ret env j)) [0..<Suc (0 + n)]\<rparr>)"
    using assms(3,4) by (intro reap_found) simp_all
  then show ?thesis
    using assms(1,2) by (simp add: emergency_shell_def Let_def emit_def shell_events_def)
qed

lemma trace_main_boot_env_last:
  "trace (main_boot env_last (main_early env_last (init_state env_last))) =
     [ConfParseCmdline, UevInit1, Setenv ''PATH'' ''/usr/bin:/bin:/usr/sbin:/sbin'',
      Setenv ''SHELL'' ''/bin/sh'', Chdir ''/'', Umask 0, ScreenInit,
      PluginInit, PluginRunHooks HOOK_BANNER, PrintBanner ''Finit'',
      SigInit, CgroupInit,
      RunInteractive ''fsck -a /dev/sda1'' ''Checking filesystem /dev/sda1'',
      RunInteractive ''mount -n -o remount,rw /'' ''Remounting / as read-write'',
      Dbg ''Root FS up, calling hooks ...'',
      PluginRunHooks HOOK_ROOTFS_UP, RunInteractive ''mount -na'' ''Mounting filesystems'',
      Dbg ''Calling extra mount hook, after mount -a ...'',
      PluginRunHooks HOOK_MOUNT_POST, Run ''swapon -ea'', Umask 18,
      ConfInit, CondInit, CondSetOneshot ''hook/banner'',
      CondSetOneshot ''hook/rootfs-up'', SigSetup,
      Dbg ''Base FS up, calling hooks ...'',
      PluginRunHooks HOOK_BASEFS_UP,
      ConfMonitor, Dbg ''Starting initctl API responder ...'', ApiInit, Umask 18,
      Dbg ''Starting the big state machine ...'', ScheduleWork Crank,
      Dbg ''Starting bootstrap finalize timer ...'', ScheduleWork Final,
      Dbg ''Entering main loop ...'', UevRun]"
  by (simp add: main_boot_def main_early_def init_state_def Let_def banner_def fs_init_def
      fsck_all_def fsck_loop.simps fsck_def fs_remount_root_def run_interactive_def
      conf_parse_cmdline_def conf_init_def cond_init_def cond_set_oneshot_def schedule_work_def
      plugin_run_hooks_def emit_def env_last_def env0_def hook_name_def)

lemma poll_results_step:
  "poll_results (e # tr) = (case e of ServiceCompleted b \<Rightarrow> [b] | _ \<Rightarrow> []) @ poll_results tr"
  by (simp add: poll_results_def)

lemma gate_verdicts_Nil: "gate_verdicts [] = []"
  and gate_verdicts_step:
  "gate_verdicts (e # tr) =
     (case e of Dbg m \<Rightarrow>
        if m = ''All run/task have completed, resuming bootstrap.'' \<or> m = ''Timeout, resuming bootstrap.''
        then [m] else [] | _ \<Rightarrow> []) @ gate_verdicts tr"
  by (simp_all add: gate_verdicts_def)

section \<open>The claims\<close>

text \<open>
  Claim C1. Let the bootstrap timer be the only pending work, with \<open>cnt = N \<ge> 0\<close> and no
  poll made so far. If \<^verbatim>\<open>service_completed()\<close> never returns true, the reactor stops after
  exactly \<open>N\<close> polls, all false, with \<^verbatim>\<open>finalize\<close> run exactly once, as the last thing,
  and nothing left pending. If \<^verbatim>\<open>service_completed()\<close> first returns true at poll
  \<open>k \<le> N\<close>, there are exactly \<open>k\<close> polls, \<^verbatim>\<open>finalize\<close> runs exactly once, entered right
  after the \<open>k\<close>-th poll and the diagnostic that follows it, and nothing is left pending.
\<close>

theorem final_worker_gate:
  assumes "0 \<le> N" and "cnt s = N" and "wq s = [Final]" and "npolls (trace s) = 0"
  shows "((\<forall>j. \<not> service_completed_at env j) \<longrightarrow>
            poll_results (trace (uev_run env s)) = replicate (nat N) False
          \<and> finalize_calls (trace (uev_run env s)) = finalize_calls (trace s) + 1
          \<and> wq (uev_run env s) = []
          \<and> (\<exists>s1. uev_run env s = finalize env s1 \<and> npolls (trace s1) = nat N))
       \<and> (\<forall>k. 1 \<le> k \<and> int k \<le> N \<and> service_completed_at env k
               \<and> (\<forall>j. 1 \<le> j \<and> j < k \<longrightarrow> \<not> service_completed_at env j) \<longrightarrow>
            poll_results (trace (uev_run env s)) = replicate (k - 1) False @ [True]
          \<and> finalize_calls (trace (uev_run env s)) = finalize_calls (trace s) + 1
          \<and> wq (uev_run env s) = []
          \<and> (\<exists>s1 pre m. uev_run env s = finalize env s1
                \<and> trace s1 = pre @ [ServiceCompleted True, Dbg m] \<and> npolls pre = k - 1))"
proof (intro conjI impI allI)
  assume never: "\<forall>j. \<not> service_completed_at env j"
  let ?s1 = "s\<lparr>wq := [], cnt := - 1,
      trace := trace s @ failed_rounds (nat (cnt s)) (cnt s) @
        [Dbg ''Step all services ...'', ServiceStepAll, Dbg ''Timeout, resuming bootstrap.'']\<rparr>"
  have run: "uev_run env s = finalize env ?s1"
    using assms never by (intro gate_timeout) auto
  show "poll_results (trace (uev_run env s)) = replicate (nat N) False"
    using assms by (simp add: run poll_results_finalize poll_results_append
        poll_results_failed_rounds npolls_0_poll_results) (simp add: poll_results_def)
  show "finalize_calls (trace (uev_run env s)) = finalize_calls (trace s) + 1"
    by (simp add: run finalize_calls_finalize finalize_calls_append finalize_calls_failed_rounds)
       (simp add: finalize_calls_def)
  show "wq (uev_run env s) = []"
    by (simp add: run wq_finalize)
  have "npolls (trace ?s1) = nat N"
    using assms by (simp add: npolls_append npolls_failed_rounds) (simp add: npolls_def)
  with run show "\<exists>s1. uev_run env s = finalize env s1 \<and> npolls (trace s1) = nat N"
    by blast
next
  fix k
  assume k: "1 \<le> k \<and> int k \<le> N \<and> service_completed_at env k
      \<and> (\<forall>j. 1 \<le> j \<and> j < k \<longrightarrow> \<not> service_completed_at env j)"
  let ?m = "if int k < cnt s then ''All run/task have completed, resuming bootstrap.''
              else ''Timeout, resuming bootstrap.''"
  let ?s1 = "s\<lparr>wq := [], cnt := cnt s - int k,
      trace := trace s @ failed_rounds (k - 1) (cnt s) @
        [Dbg ''Step all services ...'', ServiceStepAll, ServiceCompleted True, Dbg ?m]\<rparr>"
  have run: "uev_run env s = finalize env ?s1"
    using assms k by (intro gate_success) auto
  show "poll_results (trace (uev_run env s)) = replicate (k - 1) False @ [True]"
    using assms by (simp add: run poll_results_finalize poll_results_append
        poll_results_failed_rounds npolls_0_poll_results) (simp add: poll_results_def)
  show "finalize_calls (trace (uev_run env s)) = finalize_calls (trace s) + 1"
    by (simp add: run finalize_calls_finalize finalize_calls_append finalize_calls_failed_rounds)
       (simp add: finalize_calls_def)
  show "wq (uev_run env s) = []"
    by (simp add: run wq_finalize)
  let ?pre = "trace s @ failed_rounds (k - 1) (cnt s) @ [Dbg ''Step all services ...'', ServiceStepAll]"
  have "trace ?s1 = ?pre @ [ServiceCompleted True, Dbg ?m]"
    by simp
  moreover have "npolls ?pre = k - 1"
    using assms by (simp add: npolls_append npolls_failed_rounds) (simp add: npolls_def)
  ultimately show "\<exists>s1 pre m. uev_run env s = finalize env s1
      \<and> trace s1 = pre @ [ServiceCompleted True, Dbg m] \<and> npolls pre = k - 1"
    using run by blast
qed

text \<open>A budget of three: no poll succeeds, or the second one does.\<close>

theorem final_worker_gate_witness:
  "poll_results (trace (uev_run env_never gate3)) = [False, False, False]
   \<and> finalize_calls (trace (uev_run env_never gate3)) = 1
   \<and> wq (uev_run env_never gate3) = []
   \<and> poll_results (trace (uev_run env0 gate3)) = [False, True]
   \<and> finalize_calls (trace (uev_run env0 gate3)) = 1
   \<and> wq (uev_run env0 gate3) = []"
proof -
  have h: "(0::int) \<le> 3" "cnt gate3 = 3" "wq gate3 = [Final]" "npolls (trace gate3) = 0"
    by (simp_all add: gate3_def npolls_def)
  have never: "\<forall>j. \<not> service_completed_at env_never j"
    by (simp add: env_never_def)
  have second: "1 \<le> (2::nat) \<and> int 2 \<le> 3 \<and> service_completed_at env0 2
      \<and> (\<forall>j. 1 \<le> j \<and> j < 2 \<longrightarrow> \<not> service_completed_at env0 j)"
    by (simp add: env0_def)
  have fc: "finalize_calls (trace gate3) = 0"
    by (simp add: gate3_def finalize_calls_def)
  from final_worker_gate [OF h, of env_never] never
  have a: "poll_results (trace (uev_run env_never gate3)) = replicate (nat 3) False
      \<and> finalize_calls (trace (uev_run env_never gate3)) = finalize_calls (trace gate3) + 1
      \<and> wq (uev_run env_never gate3) = []"
    by blast
  from final_worker_gate [OF h, of env0] second
  have b: "poll_results (trace (uev_run env0 gate3)) = replicate (2 - 1) False @ [True]
      \<and> finalize_calls (trace (uev_run env0 gate3)) = finalize_calls (trace gate3) + 1
      \<and> wq (uev_run env0 gate3) = []"
    by blast
  from a b fc show ?thesis
    by (simp add: numeral_3_eq_3)
qed

text \<open>
  Claim C2, as stated, fails: \<^verbatim>\<open>finalize\<close> has no assertion and no flag, so a second
  call runs its whole body again.
\<close>

theorem finalize_twice_runs_twice:
  "finalize_calls (trace (finalize env0 (finalize env0 (init_state env0)))) = 2
   \<and> trace (finalize env0 (finalize env0 (init_state env0)))
       = trace (finalize env0 (init_state env0)) @ trace (finalize env0 (init_state env0))"
  by (simp add: trace_finalize finalize_calls_def init_state_def env0_def
      runparts_finalize rescue_finalize cfglevel_finalize)

text \<open>
  Claim C2, amended. Whatever the environment, a run of \<^verbatim>\<open>main\<close> runs \<^verbatim>\<open>finalize\<close>
  exactly once when the process is PID 1 and gets through the bootstrap, and never
  otherwise (the client, or the process that became the emergency shell): at most once per
  process. This holds because \<^verbatim>\<open>final_worker\<close> calls it only from the invocation that
  does not resubmit itself; \<^verbatim>\<open>finalize\<close> itself does not reject a second call.
\<close>

theorem finalize_once_per_process:
  assumes "main env (init_state env) = Some out"
  shows "finalize_calls (trace (state_of out)) =
     (case out of Returns s' \<Rightarrow> if getpid env = 1 then 1 else 0 | Replaced s' \<Rightarrow> 0)"
proof (cases "getpid env = 1")
  case False
  then have "out = Returns (emit Client (init_state env))"
    using assms by (simp add: main_def)
  then show ?thesis using False by (simp add: emit_def init_state_def finalize_calls_def)
next
  case pid1: True
  have z: "finalize_calls (trace (init_state env)) = 0"
    by (simp add: init_state_def finalize_calls_def)
  show ?thesis
  proof (cases out)
    case (Replaced s')
    then have "main_sync env (init_state env) = Some (Replaced s')"
      using assms pid1 by (simp add: main_def split: option.splits outcome.splits)
    from finalize_calls_main_sync [OF this] z show ?thesis
      by (simp add: Replaced)
  next
    case (Returns s')
    have "wq (init_state env) = []" by (simp add: init_state_def)
    then obtain s0 c post where s0: "main_sync env (init_state env) = Some (Returns s0)"
      and post: "list_all gate_event post"
      and s': "s' = finalize env (s0\<lparr>wq := [], cnt := c, trace := trace s0 @ post\<rparr>)"
      using main_run_shape [OF pid1, of "init_state env" s'] assms Returns by blast
    from finalize_calls_main_sync [OF s0] z have "finalize_calls (trace s0) = 0"
      by simp
    then show ?thesis
      by (simp add: Returns pid1 s' finalize_calls_finalize finalize_calls_append
          gate_event_projections(2) [OF post])
  qed
qed

text \<open>The sample environment: PID 1, no emergency shell.\<close>

theorem finalize_once_per_process_witness:
  "main env0 (init_state env0) =
       Some (Returns (uev_run env0 (main_boot env0 (main_early env0 (init_state env0)))))
   \<and> getpid env0 = 1
   \<and> finalize_calls (trace (uev_run env0 (main_boot env0 (main_early env0 (init_state env0))))) = 1"
proof -
  have g: "getpid env0 = 1" and e: "\<not> EMERGENCY_SHELL env0"
    by (simp_all add: env0_def)
  note m = main_without_emergency_shell [OF g e, of "init_state env0"]
  from finalize_once_per_process [OF m] g m show ?thesis
    by simp
qed

text \<open>
  Claim C3, as stated, fails: the configuration directory is not read between the static
  configuration and the initialisation of the condition store. \<^verbatim>\<open>conf_monitor\<close> (\<^verbatim>\<open>read all
  .conf files\<close>, line 424) runs after \<^verbatim>\<open>cond_init\<close> and after the basefs-up hook.
\<close>

theorem directory_configuration_after_condition_store:
  "main_sync env0 (init_state env0) = Some (Returns (main_boot env0 (main_early env0 (init_state env0))))
   \<and> \<not> precedes ConfMonitor CondInit (trace (main_boot env0 (main_early env0 (init_state env0))))
   \<and> precedes CondInit ConfMonitor (trace (main_boot env0 (main_early env0 (init_state env0))))
   \<and> precedes (PluginRunHooks HOOK_BASEFS_UP) ConfMonitor (trace (main_boot env0 (main_early env0 (init_state env0))))"
proof -
  have m: "main_sync env0 (init_state env0) = Some (Returns (main_boot env0 (main_early env0 (init_state env0))))"
    by (simp add: main_sync_def emergency_shell_def env0_def)
  have "trace (main_boot env0 (main_early env0 (init_state env0))) =
     [ConfParseCmdline, UevInit1, Setenv ''PATH'' ''/usr/bin:/bin:/usr/sbin:/sbin'',
      Setenv ''SHELL'' ''/bin/sh'', Chdir ''/'', Umask 0, ScreenInit,
      PluginInit, PluginRunHooks HOOK_BANNER, PrintBanner ''Finit'',
      SigInit, CgroupInit,
      RunInteractive ''fsck -a /dev/sda1'' ''Checking filesystem /dev/sda1'',
      RunInteractive ''mount -n -o remount,rw /'' ''Remounting / as read-write'',
      Dbg ''Root FS up, calling hooks ...'',
      PluginRunHooks HOOK_ROOTFS_UP, RunInteractive ''mount -na'' ''Mounting filesystems'',
      Dbg ''Calling extra mount hook, after mount -a ...'',
      PluginRunHooks HOOK_MOUNT_POST, Run ''swapon -ea'', Umask 18,
      ConfInit, CondInit, CondSetOneshot ''hook/banner'',
      CondSetOneshot ''hook/rootfs-up'', SigSetup,
      Dbg ''Base FS up, calling hooks ...'',
      PluginRunHooks HOOK_BASEFS_UP,
      ConfMonitor, Dbg ''Starting initctl API responder ...'', ApiInit, Umask 18,
      Dbg ''Starting the big state machine ...'', ScheduleWork Crank,
      Dbg ''Starting bootstrap finalize timer ...'', ScheduleWork Final,
      Dbg ''Entering main loop ...'', UevRun]"
    by (simp add: main_boot_def main_early_def init_state_def Let_def banner_def fs_init_def
        fsck_all_def fsck_loop.simps fsck_def fs_remount_root_def run_interactive_def
        conf_parse_cmdline_def conf_init_def cond_init_def cond_set_oneshot_def schedule_work_def
        plugin_run_hooks_def emit_def env0_def hook_name_def)
  with m show ?thesis
    by (simp add: precedes_def)
qed

text \<open>
  Claim C3, amended. The calls of \<^verbatim>\<open>main\<close> up to the main loop, in order. After
  \<^verbatim>\<open>conf_init\<close> (the static configuration) come \<^verbatim>\<open>cond_init\<close>, the two one-shot
  conditions, \<^verbatim>\<open>sig_setup\<close> and the basefs-up hook; \<^verbatim>\<open>conf_monitor\<close>, which reads the
  configuration directory, comes after the basefs-up hook.
\<close>

theorem main_phases_in_order:
  assumes "main_sync env (init_state env) = Some (Returns s')"
  shows "filter sequencer_call (trace s') =
     [ConfParseCmdline, UevInit1, Setenv ''PATH'' (PATH_STDPATH env),
      Setenv ''SHELL'' (PATH_BSHELL env), Chdir ''/'', Umask 0] @
     (if \<not> kernel_rescue env \<and> \<not> log_is_debug env then [ScreenInit] else []) @
     (if EMERGENCY_SHELL env then [Fork (fork_ret env)] else []) @
     [PluginInit, PluginRunHooks HOOK_BANNER] @
     (if log_is_silent env then [] else [PrintBanner (INIT_HEADING env)]) @
     [SigInit, CgroupInit,
      PluginRunHooks HOOK_ROOTFS_UP, RunInteractive ''mount -na'' ''Mounting filesystems''] @
     (if run_interactive_rc env ''mount -na'' \<noteq> 0 then [PluginRunHooks HOOK_MOUNT_ERROR] else []) @
     [PluginRunHooks HOOK_MOUNT_POST, Run ''swapon -ea'', Umask 18,
      ConfInit, CondInit, CondSetOneshot (plugin_hook_str env HOOK_BANNER),
      CondSetOneshot (plugin_hook_str env HOOK_ROOTFS_UP), SigSetup,
      PluginRunHooks HOOK_BASEFS_UP,
      ConfMonitor, ApiInit, Umask 18,
      ScheduleWork Crank, ScheduleWork Final, UevRun]"
proof -
  obtain p1 p2 where p: "list_all noise p1" "list_all noise p2"
    and tr: "trace s' = trace (init_state env) @
       [ConfParseCmdline, UevInit1, Setenv ''PATH'' (PATH_STDPATH env),
        Setenv ''SHELL'' (PATH_BSHELL env), Chdir ''/'', Umask 0] @
       (if \<not> kernel_rescue env \<and> \<not> log_is_debug env then [ScreenInit] else []) @
       (if EMERGENCY_SHELL env then [Fork (fork_ret env)] else []) @ p1 @
       [PluginInit, PluginRunHooks HOOK_BANNER] @
       map (Callback HOOK_BANNER) (plugins env HOOK_BANNER) @
       (if log_is_silent env then [] else [PrintBanner (INIT_HEADING env)]) @
       [SigInit, CgroupInit] @ p2 @ mount_events env @ conf_events env"
    using main_sync_shape(1) [OF assms] by blast
  show ?thesis
    by (simp add: tr noise_projections(1) [OF p(1)] noise_projections(1) [OF p(2)]
        filter_sequencer_call_mount_events filter_sequencer_call_conf_events
        sequencer_call_callbacks init_state_def)
qed

text \<open>The sample environment, without the emergency shell.\<close>

theorem main_phases_in_order_witness:
  "main_sync env0 (init_state env0) = Some (Returns (main_boot env0 (main_early env0 (init_state env0))))
   \<and> filter sequencer_call (trace (main_boot env0 (main_early env0 (init_state env0)))) =
     [ConfParseCmdline, UevInit1, Setenv ''PATH'' ''/usr/bin:/bin:/usr/sbin:/sbin'',
      Setenv ''SHELL'' ''/bin/sh'', Chdir ''/'', Umask 0, ScreenInit,
      PluginInit, PluginRunHooks HOOK_BANNER, PrintBanner ''Finit'',
      SigInit, CgroupInit,
      PluginRunHooks HOOK_ROOTFS_UP, RunInteractive ''mount -na'' ''Mounting filesystems'',
      PluginRunHooks HOOK_MOUNT_POST, Run ''swapon -ea'', Umask 18,
      ConfInit, CondInit, CondSetOneshot ''hook/banner'',
      CondSetOneshot ''hook/rootfs-up'', SigSetup,
      PluginRunHooks HOOK_BASEFS_UP,
      ConfMonitor, ApiInit, Umask 18,
      ScheduleWork Crank, ScheduleWork Final, UevRun]"
proof -
  have m: "main_sync env0 (init_state env0) = Some (Returns (main_boot env0 (main_early env0 (init_state env0))))"
    by (simp add: main_sync_def emergency_shell_def env0_def)
  from main_phases_in_order [OF m] m show ?thesis
    by simp (simp add: env0_def hook_name_def)
qed

text \<open>
  Claim C4. In a run of \<^verbatim>\<open>main\<close> as PID 1 that reaches the end of the bootstrap, the hook
  points fire in the order banner, rootfs-up, mount-error (only when \<^verbatim>\<open>mount -na\<close> fails),
  mount-post, basefs-up, services-up, system-up, each followed by its callbacks in
  registration order, whatever callbacks are registered.
\<close>

theorem hooks_fire_in_order:
  assumes "getpid env = 1" and "main env (init_state env) = Some (Returns s')"
  shows "filter hook_event (trace s') =
     hook_run env HOOK_BANNER @ hook_run env HOOK_ROOTFS_UP @
     (if run_interactive_rc env ''mount -na'' \<noteq> 0 then hook_run env HOOK_MOUNT_ERROR else []) @
     hook_run env HOOK_MOUNT_POST @ hook_run env HOOK_BASEFS_UP @
     hook_run env HOOK_SVC_UP @ hook_run env HOOK_SYSTEM_UP"
proof -
  have "wq (init_state env) = []" by (simp add: init_state_def)
  then obtain s0 c post where s0: "main_sync env (init_state env) = Some (Returns s0)"
    and post: "list_all gate_event post"
    and s': "s' = finalize env (s0\<lparr>wq := [], cnt := c, trace := trace s0 @ post\<rparr>)"
    using main_run_shape [OF assms(1) _ assms(2)] by blast
  obtain p1 p2 where p: "list_all noise p1" "list_all noise p2"
    and tr: "trace s0 = trace (init_state env) @
       [ConfParseCmdline, UevInit1, Setenv ''PATH'' (PATH_STDPATH env),
        Setenv ''SHELL'' (PATH_BSHELL env), Chdir ''/'', Umask 0] @
       (if \<not> kernel_rescue env \<and> \<not> log_is_debug env then [ScreenInit] else []) @
       (if EMERGENCY_SHELL env then [Fork (fork_ret env)] else []) @ p1 @
       [PluginInit, PluginRunHooks HOOK_BANNER] @
       map (Callback HOOK_BANNER) (plugins env HOOK_BANNER) @
       (if log_is_silent env then [] else [PrintBanner (INIT_HEADING env)]) @
       [SigInit, CgroupInit] @ p2 @ mount_events env @ conf_events env"
    using main_sync_shape(1) [OF s0] by blast
  have "filter hook_event (trace s0) =
     hook_run env HOOK_BANNER @ hook_run env HOOK_ROOTFS_UP @
     (if run_interactive_rc env ''mount -na'' \<noteq> 0 then hook_run env HOOK_MOUNT_ERROR else []) @
     hook_run env HOOK_MOUNT_POST @ hook_run env HOOK_BASEFS_UP"
    by (simp add: tr noise_hook_event [OF p(1)] noise_hook_event [OF p(2)]
        filter_hook_event_mount_events filter_hook_event_conf_events init_state_def)
       (simp add: hook_run_def filter_map comp_def)
  then show ?thesis
    by (simp add: s' filter_hook_event_finalize gate_event_hook_event [OF post])
qed

text \<open>Two callbacks on the banner hook and a failing \<^verbatim>\<open>mount -na\<close>.\<close>

theorem hooks_fire_in_order_witness:
  "getpid env_plugins = 1
   \<and> main env_plugins (init_state env_plugins) =
       Some (Returns (uev_run env_plugins (main_boot env_plugins (main_early env_plugins (init_state env_plugins)))))
   \<and> filter hook_event (trace (uev_run env_plugins (main_boot env_plugins (main_early env_plugins (init_state env_plugins))))) =
       [PluginRunHooks HOOK_BANNER, Callback HOOK_BANNER 1, Callback HOOK_BANNER 2,
        PluginRunHooks HOOK_ROOTFS_UP, PluginRunHooks HOOK_MOUNT_ERROR, PluginRunHooks HOOK_MOUNT_POST,
        PluginRunHooks HOOK_BASEFS_UP, PluginRunHooks HOOK_SVC_UP, PluginRunHooks HOOK_SYSTEM_UP]"
proof -
  have g: "getpid env_plugins = 1" and e: "\<not> EMERGENCY_SHELL env_plugins"
    by (simp_all add: env_plugins_def env0_def)
  note m = main_without_emergency_shell [OF g e, of "init_state env_plugins"]
  from hooks_fire_in_order [OF g m] g m show ?thesis
    by (simp add: hook_run_def) (simp add: env_plugins_def env0_def)
qed

text \<open>
  Claim C5. In the run of \<^verbatim>\<open>main\<close> as PID 1 in which \<^verbatim>\<open>service_completed()\<close> is
  first true at poll 120 (the budget of the source), the timer leaves by success: the last
  poll returned true, and \<^verbatim>\<open>finalize\<close> runs once. But the diagnostic printed is the one
  of the timeout: the second test \<^verbatim>\<open>cnt > 0\<close> sees the counter after the decrement,
  which is 0.
\<close>

theorem success_on_last_poll_reported_as_timeout:
  "main env_last (init_state env_last) =
     Some (Returns (uev_run env_last (main_boot env_last (main_early env_last (init_state env_last)))))
   \<and> poll_results (trace (uev_run env_last (main_boot env_last (main_early env_last (init_state env_last)))))
      = replicate 119 False @ [True]
   \<and> gate_verdicts (trace (uev_run env_last (main_boot env_last (main_early env_last (init_state env_last)))))
      = [''Timeout, resuming bootstrap.'']
   \<and> finalize_calls (trace (uev_run env_last (main_boot env_last (main_early env_last (init_state env_last)))))
      = 1"
proof -
  let ?sb = "main_boot env_last (main_early env_last (init_state env_last))"
  let ?s1 = "crank_worker (?sb\<lparr>wq := [Final]\<rparr>)"
  have m: "main env_last (init_state env_last) = Some (Returns (uev_run env_last ?sb))"
    by (rule main_without_emergency_shell) (simp_all add: env_last_def env0_def)
  have wq: "wq ?sb = [Crank, Final]" and cnt: "cnt ?sb = 120"
    by (simp_all add: fields_main_boot wq_main_early cnt_main_early init_state_def)
  have tr1: "trace ?s1 = trace ?sb @ [SmInit, SmStep]"
    by (simp add: crank_worker_def emit_def)
  have crank: "uev_run env_last ?sb = uev_run env_last ?s1"
    using wq by (simp add: uev_run_Cons)
  have gate: "uev_run env_last ?s1 =
    finalize env_last (?s1\<lparr>wq := [], cnt := cnt ?s1 - int 120,
      trace := trace ?s1 @ failed_rounds (120 - 1) (cnt ?s1) @
        [Dbg ''Step all services ...'', ServiceStepAll, ServiceCompleted True,
         Dbg (if int 120 < cnt ?s1 then ''All run/task have completed, resuming bootstrap.''
              else ''Timeout, resuming bootstrap.'')]\<rparr>)"
  proof (rule gate_success)
    show "1 \<le> (120::nat)" by simp
    show "int 120 \<le> cnt ?s1" using cnt by (simp add: crank_worker_def emit_def)
    show "wq ?s1 = [Final]" by (simp add: crank_worker_def emit_def)
    show "npolls (trace ?s1) = 0"
      by (simp add: tr1 trace_main_boot_env_last npolls_def)
    show "service_completed_at env_last 120" by (simp add: env_last_def)
    show "\<forall>j. 1 \<le> j \<and> j < 120 \<longrightarrow> \<not> service_completed_at env_last j"
      by (simp add: env_last_def)
  qed
  have c1: "cnt ?s1 = 120"
    using cnt by (simp add: crank_worker_def emit_def)
  have p: "poll_results (trace (uev_run env_last ?sb)) = replicate 119 False @ [True]"
    apply (simp only: crank gate)
    apply (simp add: poll_results_finalize poll_results_append poll_results_failed_rounds
        tr1 trace_main_boot_env_last c1 poll_results_step poll_results_Nil)
    done
  have v: "gate_verdicts (trace (uev_run env_last ?sb)) = [''Timeout, resuming bootstrap.'']"
    apply (simp only: crank gate)
    apply (simp add: gate_verdicts_finalize gate_verdicts_append gate_verdicts_failed_rounds
        tr1 trace_main_boot_env_last c1 gate_verdicts_step gate_verdicts_Nil)
    done
  have f: "finalize_calls (trace (uev_run env_last ?sb)) = 1"
    apply (simp only: crank gate)
    apply (simp add: finalize_calls_finalize finalize_calls_append finalize_calls_failed_rounds
        tr1 trace_main_boot_env_last c1 finalize_calls_Cons finalize_calls_Nil)
    done
  from m p v f show ?thesis by simp
qed

text \<open>
  Claim C6, as stated, fails: with the root listed as \<^verbatim>\<open>ro\<close> and a failing pass 1, the
  remount is skipped and no advisory message is printed (\<^verbatim>\<open>goto out\<close>, line 154).
\<close>

theorem failed_check_without_advisory:
  "\<not> rescue (init_state env_ro_root)
   \<and> fst (fsck_all env_ro_root (init_state env_ro_root)) = 4
   \<and> trace (fs_init env_ro_root (init_state env_ro_root)) =
       [RunInteractive ''fsck -a /dev/sda1'' ''Checking filesystem /dev/sda1'',
        Dbg ''Root FS up, calling hooks ...'', PluginRunHooks HOOK_ROOTFS_UP,
        RunInteractive ''mount -na'' ''Mounting filesystems'',
        Dbg ''Calling extra mount hook, after mount -a ...'', PluginRunHooks HOOK_MOUNT_POST,
        Run ''swapon -ea'', Umask 18]
   \<and> Print ''Cannot remount / as read-write, fsck failed before''
        \<notin> set (trace (fs_init env_ro_root (init_state env_ro_root)))"
proof -
  have f: "fsck_all env_ro_root (init_state env_ro_root) =
       (4, (init_state env_ro_root)\<lparr>trace :=
              [RunInteractive ''fsck -a /dev/sda1'' ''Checking filesystem /dev/sda1'']\<rparr>)"
    by (simp add: fsck_all_def fsck_loop.simps fsck_def run_interactive_def emit_def
        init_state_def env_ro_root_def env_fsck_fails_def env0_def)
  have t: "trace (fs_init env_ro_root (init_state env_ro_root)) =
       [RunInteractive ''fsck -a /dev/sda1'' ''Checking filesystem /dev/sda1'',
        Dbg ''Root FS up, calling hooks ...'', PluginRunHooks HOOK_ROOTFS_UP,
        RunInteractive ''mount -na'' ''Mounting filesystems'',
        Dbg ''Calling extra mount hook, after mount -a ...'', PluginRunHooks HOOK_MOUNT_POST,
        Run ''swapon -ea'', Umask 18]"
    by (simp add: fs_init_after_checks f fs_remount_root_def mount_events_def)
       (simp add: init_state_def env_ro_root_def env_fsck_fails_def env0_def)
  show ?thesis
    by (simp add: f t) (simp add: init_state_def)
qed

text \<open>
  Claim C6, amended. \<^verbatim>\<open>fsck_all\<close> runs the check passes 1, 2, ... in ascending order, up
  to and including the first pass that fails, at most 9. When a pass has failed (and the
  system is not in rescue mode), \<^verbatim>\<open>fs_init\<close> does not remount the root read-write and
  still runs \<^verbatim>\<open>mount -na\<close>; the advisory message is printed exactly when fstab can be
  opened and lists \<^verbatim>\<open>/\<close> with a type other than \<^verbatim>\<open>ro\<close>.
\<close>

theorem fsck_passes_and_failed_check:
  "fsck_all env s = check_passes env (passes_run env [1..9]) s
   \<and> (\<exists>k. 1 \<le> k \<and> k \<le> 9 \<and> passes_run env [1..9] = [1..k]
        \<and> (\<forall>q. 1 \<le> q \<and> q < k \<longrightarrow> \<not> pass_fails env q)
        \<and> (k < 9 \<longrightarrow> pass_fails env k))
   \<and> (\<not> rescue s \<and> fst (fsck_all env s) \<noteq> 0 \<longrightarrow>
        RunInteractive ''mount -n -o remount,rw /'' ''Remounting / as read-write''
          \<notin> set (new_events s (fs_init env s))
        \<and> RunInteractive ''mount -na'' ''Mounting filesystems'' \<in> set (new_events s (fs_init env s))
        \<and> (Print ''Cannot remount / as read-write, fsck failed before''
              \<in> set (new_events s (fs_init env s))) = root_remountable env)"
proof (intro conjI impI)
  show "fsck_all env s = check_passes env (passes_run env [1..9]) s"
    by (simp add: fsck_all_def check_passes_def fsck_loop_passes)
  show "\<exists>k. 1 \<le> k \<and> k \<le> 9 \<and> passes_run env [1..9] = [1..k]
        \<and> (\<forall>q. 1 \<le> q \<and> q < k \<longrightarrow> \<not> pass_fails env q)
        \<and> (k < 9 \<longrightarrow> pass_fails env k)"
    by (rule passes_run_upto) simp
next
  assume a: "\<not> rescue s \<and> fst (fsck_all env s) \<noteq> 0"
  then obtain p1 where p1: "list_all fsck_event p1"
    and ev: "new_events s (fs_init env s) = p1 @
        (if root_remountable env
         then [Print ''Cannot remount / as read-write, fsck failed before''] else []) @
        mount_events env"
    using fs_init_fsck_failed by blast
  have r: "RunInteractive ''mount -n -o remount,rw /'' ''Remounting / as read-write'' \<notin> set p1"
    using fsck_event_member [OF p1] by fastforce
  have a1: "Print ''Cannot remount / as read-write, fsck failed before'' \<notin> set p1"
    using fsck_event_member [OF p1] by fastforce
  show "RunInteractive ''mount -n -o remount,rw /'' ''Remounting / as read-write''
          \<notin> set (new_events s (fs_init env s))"
    using r by (auto simp add: ev mount_events_def)
  show "RunInteractive ''mount -na'' ''Mounting filesystems'' \<in> set (new_events s (fs_init env s))"
    by (simp add: ev mount_events_def)
  show "(Print ''Cannot remount / as read-write, fsck failed before''
              \<in> set (new_events s (fs_init env s))) = root_remountable env"
    using a1 by (auto simp add: ev mount_events_def)
qed

text \<open>The check of the root device fails in pass 1 and the root is listed read-write.\<close>

theorem fsck_passes_and_failed_check_witness:
  "\<not> rescue (init_state env_fsck_fails)
   \<and> fsck_all env_fsck_fails (init_state env_fsck_fails) =
       (4, (init_state env_fsck_fails)\<lparr>trace :=
              [RunInteractive ''fsck -a /dev/sda1'' ''Checking filesystem /dev/sda1'']\<rparr>)
   \<and> RunInteractive ''mount -n -o remount,rw /'' ''Remounting / as read-write''
          \<notin> set (new_events (init_state env_fsck_fails) (fs_init env_fsck_fails (init_state env_fsck_fails)))
   \<and> RunInteractive ''mount -na'' ''Mounting filesystems''
          \<in> set (new_events (init_state env_fsck_fails) (fs_init env_fsck_fails (init_state env_fsck_fails)))
   \<and> Print ''Cannot remount / as read-write, fsck failed before''
          \<in> set (new_events (init_state env_fsck_fails) (fs_init env_fsck_fails (init_state env_fsck_fails)))"
proof -
  have f: "fsck_all env_fsck_fails (init_state env_fsck_fails) =
       (4, (init_state env_fsck_fails)\<lparr>trace :=
              [RunInteractive ''fsck -a /dev/sda1'' ''Checking filesystem /dev/sda1'']\<rparr>)"
    by (simp add: fsck_all_def fsck_loop.simps fsck_def run_interactive_def emit_def
        init_state_def env_fsck_fails_def env0_def)
  have r: "\<not> rescue (init_state env_fsck_fails)"
    by (simp add: init_state_def)
  have rr: "root_remountable env_fsck_fails"
    by (simp add: root_remountable_def env_fsck_fails_def env0_def)
  from fsck_passes_and_failed_check [of env_fsck_fails "init_state env_fsck_fails"] f r rr
  show ?thesis by simp
qed

text \<open>
  Claim C7. The steps of \<^verbatim>\<open>finalize\<close>, in order: the run-parts directory (only when it is
  configured, is a directory, and the system is not in rescue mode), \<^verbatim>\<open>service_runlevel\<close>
  with the configured level, the pruning of the bootstrap-only services, the services-up
  hook, the legacy script (only when it is executable and the system is not in rescue
  mode), the system-up hook, \<^verbatim>\<open>log_silent\<close>, then \<^verbatim>\<open>tty_runlevel\<close>. In rescue mode
  the run-parts directory and the legacy script are skipped whatever is on disk.
\<close>

theorem finalize_order:
  "filter finalize_step (new_events s (finalize env s)) =
     (case runparts s of
        None \<Rightarrow> []
      | Some dir \<Rightarrow> if fisdir env dir \<and> \<not> rescue s then [RunParts dir] else []) @
     [ServiceRunlevel (cfglevel s), SvcPruneBootstrap, PluginRunHooks HOOK_SVC_UP] @
     (if access_x env (FINIT_RC_LOCAL env) \<and> \<not> rescue s
      then [RunInteractive (FINIT_RC_LOCAL env) (''Calling '' @ FINIT_RC_LOCAL env)] else []) @
     [PluginRunHooks HOOK_SYSTEM_UP, LogSilent, TtyRunlevel]
   \<and> (rescue s \<longrightarrow>
        filter finalize_step (new_events s (finalize env s)) =
          [ServiceRunlevel (cfglevel s), SvcPruneBootstrap, PluginRunHooks HOOK_SVC_UP,
           PluginRunHooks HOOK_SYSTEM_UP, LogSilent, TtyRunlevel])"
  by (simp add: new_events_def trace_finalize filter_finalize_step_callbacks split: option.split)

text \<open>Rescue mode with a run-parts directory and an executable legacy script on disk.\<close>

theorem finalize_order_witness:
  "rescue rescue_state \<and> fisdir env_disk ''/etc/start.d'' \<and> access_x env_disk (FINIT_RC_LOCAL env_disk)
   \<and> filter finalize_step (new_events rescue_state (finalize env_disk rescue_state)) =
       [ServiceRunlevel 2, SvcPruneBootstrap, PluginRunHooks HOOK_SVC_UP,
        PluginRunHooks HOOK_SYSTEM_UP, LogSilent, TtyRunlevel]"
  using finalize_order [of rescue_state env_disk]
  by (simp add: rescue_state_def env_disk_def)

text \<open>
  Claim C8. In a run of \<^verbatim>\<open>main\<close> as PID 1 that reaches the end of the bootstrap, the
  banner and rootfs-up hooks fire before \<^verbatim>\<open>cond_init\<close>; right after \<^verbatim>\<open>cond_init\<close> the
  one-shot conditions of these two hooks are set; neither hook fires again afterwards; and
  at the end both conditions are set.
\<close>

theorem early_hook_conditions:
  assumes "getpid env = 1" and "main env (init_state env) = Some (Returns s')"
  shows "cond_is_set (plugin_hook_str env HOOK_BANNER) s'
     \<and> cond_is_set (plugin_hook_str env HOOK_ROOTFS_UP) s'
     \<and> (\<exists>before after. trace s' = before @ CondInit # after \<and> CondInit \<notin> set before
          \<and> hooks_fired before =
              [HOOK_BANNER, HOOK_ROOTFS_UP] @
              (if run_interactive_rc env ''mount -na'' \<noteq> 0 then [HOOK_MOUNT_ERROR] else []) @
              [HOOK_MOUNT_POST]
          \<and> take 2 after = [CondSetOneshot (plugin_hook_str env HOOK_BANNER),
                             CondSetOneshot (plugin_hook_str env HOOK_ROOTFS_UP)]
          \<and> hooks_fired after = [HOOK_BASEFS_UP, HOOK_SVC_UP, HOOK_SYSTEM_UP])"
proof -
  have "wq (init_state env) = []" by (simp add: init_state_def)
  then obtain s0 c post where s0: "main_sync env (init_state env) = Some (Returns s0)"
    and post: "list_all gate_event post"
    and s': "s' = finalize env (s0\<lparr>wq := [], cnt := c, trace := trace s0 @ post\<rparr>)"
    using main_run_shape [OF assms(1) _ assms(2)] by blast
  let ?pre = "\<lambda>p1 p2. [ConfParseCmdline, UevInit1, Setenv ''PATH'' (PATH_STDPATH env),
        Setenv ''SHELL'' (PATH_BSHELL env), Chdir ''/'', Umask 0] @
       (if \<not> kernel_rescue env \<and> \<not> log_is_debug env then [ScreenInit] else []) @
       (if EMERGENCY_SHELL env then [Fork (fork_ret env)] else []) @ p1 @
       [PluginInit, PluginRunHooks HOOK_BANNER] @
       map (Callback HOOK_BANNER) (plugins env HOOK_BANNER) @
       (if log_is_silent env then [] else [PrintBanner (INIT_HEADING env)]) @
       [SigInit, CgroupInit] @ p2 @ mount_events env"
  obtain p1 p2 where p: "list_all noise p1" "list_all noise p2"
    and tr: "trace s0 = trace (init_state env) @ ?pre p1 p2 @ conf_events env"
    using main_sync_shape(1) [OF s0] by auto
  obtain fin where fin: "trace s' = (trace s0 @ post) @ fin"
    and hfin: "hooks_fired fin = [HOOK_SVC_UP, HOOK_SYSTEM_UP]"
    using finalize_trace_ex [of env "s0\<lparr>wq := [], cnt := c, trace := trace s0 @ post\<rparr>"] s'
    by auto
  let ?before = "?pre p1 p2 @ [ConfInit]"
  let ?after = "tl (tl (conf_events env)) @ post @ fin"
  have conds: "conds s' =
     Some (List.insert (plugin_hook_str env HOOK_ROOTFS_UP) [plugin_hook_str env HOOK_BANNER])"
    using main_sync_shape(7) [OF s0] by (simp add: s' conds_finalize)
  have set1: "cond_is_set (plugin_hook_str env HOOK_BANNER) s'"
    and set2: "cond_is_set (plugin_hook_str env HOOK_ROOTFS_UP) s'"
    by (simp_all add: cond_is_set_def conds)
  have split: "trace s' = ?before @ CondInit # ?after"
    by (simp add: fin tr init_state_def conf_events_def)
  have notin: "CondInit \<notin> set ?before"
    using noise_not_CondInit [OF p(1)] noise_not_CondInit [OF p(2)]
    by (auto simp add: CondInit_notin_mount_events)
  have hb: "hooks_fired ?before =
              [HOOK_BANNER, HOOK_ROOTFS_UP] @
              (if run_interactive_rc env ''mount -na'' \<noteq> 0 then [HOOK_MOUNT_ERROR] else []) @
              [HOOK_MOUNT_POST]"
    by (simp add: hooks_fired_append hooks_fired_callbacks hooks_fired_Nil hooks_fired_Cons
        hooks_fired_mount_events noise_projections(2) [OF p(1)] noise_projections(2) [OF p(2)])
  have ta: "take 2 ?after = [CondSetOneshot (plugin_hook_str env HOOK_BANNER),
                             CondSetOneshot (plugin_hook_str env HOOK_ROOTFS_UP)]"
    by (simp add: conf_events_def)
  have ha: "hooks_fired ?after = [HOOK_BASEFS_UP, HOOK_SVC_UP, HOOK_SYSTEM_UP]"
    by (simp add: conf_events_def hooks_fired_append hooks_fired_callbacks hooks_fired_Nil
        hooks_fired_Cons hfin gate_event_projections(1) [OF post])
  from set1 set2 split notin hb ta ha show ?thesis by blast
qed

text \<open>The sample environment, with the condition names of \<open>hook_name\<close>.\<close>

theorem early_hook_conditions_witness:
  "getpid env0 = 1
   \<and> main env0 (init_state env0) =
       Some (Returns (uev_run env0 (main_boot env0 (main_early env0 (init_state env0)))))
   \<and> cond_is_set ''hook/banner'' (uev_run env0 (main_boot env0 (main_early env0 (init_state env0))))
   \<and> cond_is_set ''hook/rootfs-up'' (uev_run env0 (main_boot env0 (main_early env0 (init_state env0))))"
proof -
  have g: "getpid env0 = 1" and e: "\<not> EMERGENCY_SHELL env0"
    by (simp_all add: env0_def)
  note m = main_without_emergency_shell [OF g e, of "init_state env0"]
  have "plugin_hook_str env0 HOOK_BANNER = ''hook/banner''"
    and "plugin_hook_str env0 HOOK_ROOTFS_UP = ''hook/rootfs-up''"
    by (simp_all add: env0_def hook_name_def)
  with early_hook_conditions [OF g m] g m show ?thesis
    by simp
qed

text \<open>
  Claim C9, as stated, fails: the forked child is not a rescue shell, it returns to
  \<^verbatim>\<open>main\<close> with nothing but the fork behind it; and the process that waited does not
  exit once the child has ended, it becomes the shell itself.
\<close>

theorem waiting_process_becomes_the_shell:
  "emergency_shell env_child (init_state env_child)
       = Some (Returns ((init_state env_child)\<lparr>trace := [Fork 0]\<rparr>))
   \<and> emergency_shell env_parent (init_state env_parent)
       = Some (Replaced ((init_state env_parent)\<lparr>trace :=
           [Fork 42, Waitpid 0, Waitpid 42,
            Fprintf ''=> Embarrassingly, Finit has crashed.  Check /dev/kmsg for details.'',
            Fprintf ''=> To debug, add 'debug' to the kernel command line.'',
            Setsid, IoctlTIOCSCTTY, Execl ''/bin/sh'']\<rparr>))"
proof -
  have "emergency_shell env_child (init_state env_child)
       = Some (Returns ((init_state env_child)\<lparr>trace := [Fork 0]\<rparr>))"
    by (simp add: emergency_shell_def env_child_def emit_def init_state_def)
  moreover have "emergency_shell env_parent (init_state env_parent) =
          Some ((if execl_fails env_parent then Returns else Replaced)
            ((init_state env_parent)\<lparr>trace := trace (init_state env_parent) @ Fork (fork_ret env_parent) #
                 map (\<lambda>j. Waitpid (waitpid_ret env_parent j)) [0..<Suc 1] @ shell_events env_parent\<rparr>))"
    by (rule emergency_shell_parent) (simp_all add: env_parent_def)
  ultimately show ?thesis
    by simp (simp add: init_state_def shell_events_def env_parent_def env0_def)
qed

text \<open>
  Claim C9, amended. Without \<^verbatim>\<open>EMERGENCY_SHELL\<close> the function does nothing. With it, the
  process forks. The child (\<^verbatim>\<open>fork\<close> returned 0) returns at once and carries on with
  \<^verbatim>\<open>main\<close>. The parent calls \<^verbatim>\<open>waitpid\<close> again and again: if no call ever returns the
  pid of the child, it never leaves the loop; if call \<open>n\<close> is the first to return it, the
  parent then prints the crash notice, becomes session leader, takes the terminal and
  replaces itself by the shell with \<^verbatim>\<open>execl\<close> (returning only if \<^verbatim>\<open>execl\<close> fails).
\<close>

theorem emergency_shell_behaviour:
  "(\<not> EMERGENCY_SHELL env \<longrightarrow> emergency_shell env s = Some (Returns s))
   \<and> (EMERGENCY_SHELL env \<and> fork_ret env = 0 \<longrightarrow>
        emergency_shell env s = Some (Returns (emit (Fork 0) s)))
   \<and> (EMERGENCY_SHELL env \<and> fork_ret env \<noteq> 0 \<and> (\<forall>j. waitpid_ret env j \<noteq> fork_ret env) \<longrightarrow>
        emergency_shell env s = None)
   \<and> (\<forall>n. EMERGENCY_SHELL env \<and> fork_ret env \<noteq> 0 \<and> waitpid_ret env n = fork_ret env
          \<and> (\<forall>j<n. waitpid_ret env j \<noteq> fork_ret env) \<longrightarrow>
        emergency_shell env s =
          Some ((if execl_fails env then Returns else Replaced)
            (s\<lparr>trace := trace s @ Fork (fork_ret env) #
                 map (\<lambda>j. Waitpid (waitpid_ret env j)) [0..<Suc n] @ shell_events env\<rparr>)))"
proof (intro conjI impI allI)
  assume "\<not> EMERGENCY_SHELL env"
  then show "emergency_shell env s = Some (Returns s)"
    by (simp add: emergency_shell_def)
next
  assume "EMERGENCY_SHELL env \<and> fork_ret env = 0"
  then show "emergency_shell env s = Some (Returns (emit (Fork 0) s))"
    by (simp add: emergency_shell_def)
next
  assume "EMERGENCY_SHELL env \<and> fork_ret env \<noteq> 0 \<and> (\<forall>j. waitpid_ret env j \<noteq> fork_ret env)"
  then show "emergency_shell env s = None"
    by (simp add: emergency_shell_def reap_never)
next
  fix n
  assume "EMERGENCY_SHELL env \<and> fork_ret env \<noteq> 0 \<and> waitpid_ret env n = fork_ret env
          \<and> (\<forall>j<n. waitpid_ret env j \<noteq> fork_ret env)"
  then show "emergency_shell env s =
          Some ((if execl_fails env then Returns else Replaced)
            (s\<lparr>trace := trace s @ Fork (fork_ret env) #
                 map (\<lambda>j. Waitpid (waitpid_ret env j)) [0..<Suc n] @ shell_events env\<rparr>))"
    by (intro emergency_shell_parent) simp_all
qed

text \<open>One sample environment for each of the four cases.\<close>

theorem emergency_shell_behaviour_witness:
  "emergency_shell env0 (init_state env0) = Some (Returns (init_state env0))
   \<and> emergency_shell env_child (init_state env_child)
       = Some (Returns ((init_state env_child)\<lparr>trace := [Fork 0]\<rparr>))
   \<and> emergency_shell env_parent_waits (init_state env_parent_waits) = None
   \<and> emergency_shell env_parent (init_state env_parent)
       = Some (Replaced ((init_state env_parent)\<lparr>trace :=
           [Fork 42, Waitpid 0, Waitpid 42,
            Fprintf ''=> Embarrassingly, Finit has crashed.  Check /dev/kmsg for details.'',
            Fprintf ''=> To debug, add 'debug' to the kernel command line.'',
            Setsid, IoctlTIOCSCTTY, Execl ''/bin/sh'']\<rparr>))"
proof -
  have a: "\<not> EMERGENCY_SHELL env0"
    by (simp add: env0_def)
  have b: "EMERGENCY_SHELL env_child \<and> fork_ret env_child = 0"
    by (simp add: env_child_def)
  have c: "EMERGENCY_SHELL env_parent_waits \<and> fork_ret env_parent_waits \<noteq> 0
      \<and> (\<forall>j. waitpid_ret env_parent_waits j \<noteq> fork_ret env_parent_waits)"
    by (simp add: env_parent_waits_def)
  have d: "EMERGENCY_SHELL env_parent \<and> fork_ret env_parent \<noteq> 0
      \<and> waitpid_ret env_parent 1 = fork_ret env_parent
      \<and> (\<forall>j<1. waitpid_ret env_parent j \<noteq> fork_ret env_parent)"
    by (simp add: env_parent_def)
  have 1: "emergency_shell env0 (init_state env0) = Some (Returns (init_state env0))"
    using emergency_shell_behaviour [of env0 "init_state env0"] a by blast
  have 2: "emergency_shell env_child (init_state env_child)
      = Some (Returns (emit (Fork 0) (init_state env_child)))"
    using emergency_shell_behaviour [of env_child "init_state env_child"] b by blast
  have 3: "emergency_shell env_parent_waits (init_state env_parent_waits) = None"
    using emergency_shell_behaviour [of env_parent_waits "init_state env_parent_waits"] c by blast
  have 4: "emergency_shell env_parent (init_state env_parent) =
          Some ((if execl_fails env_parent then Returns else Replaced)
            ((init_state env_parent)\<lparr>trace := trace (init_state env_parent) @ Fork (fork_ret env_parent) #
                 map (\<lambda>j. Waitpid (waitpid_ret env_parent j)) [0..<Suc 1] @ shell_events env_parent\<rparr>))"
    using emergency_shell_behaviour [of env_parent "init_state env_parent"] d by blast
  show ?thesis
    by (simp add: 1 2 3 4) (simp add: emit_def init_state_def shell_events_def env_parent_def env0_def)
qed

text \<open>
  Claim C10. When \<^verbatim>\<open>final_worker\<close> is entered with a counter that is no longer
  positive, it steps the services, does not evaluate \<^verbatim>\<open>service_completed()\<close>, reports
  a timeout and runs \<^verbatim>\<open>finalize\<close>, whatever \<^verbatim>\<open>service_completed()\<close> would have said.
\<close>

theorem final_worker_budget_spent:
  "cnt s \<le> 0 \<Longrightarrow>
     final_worker env s =
       finalize env (s\<lparr>cnt := cnt s - 1,
         trace := trace s @ [Dbg ''Step all services ...'', ServiceStepAll,
                             Dbg ''Timeout, resuming bootstrap.'']\<rparr>)
     \<and> poll_results (trace (final_worker env s)) = poll_results (trace s)
     \<and> finalize_calls (trace (final_worker env s)) = finalize_calls (trace s) + 1
     \<and> wq (final_worker env s) = wq s"
  by (simp add: final_worker_exhausted poll_results_finalize finalize_calls_finalize wq_finalize
      poll_results_append finalize_calls_append)
     (simp add: poll_results_def finalize_calls_def)

text \<open>A spent counter in an environment where the work has completed.\<close>

theorem final_worker_budget_spent_witness:
  "cnt spent \<le> 0 \<and> service_completed_at env_done 1
   \<and> take 3 (trace (final_worker env_done spent)) =
       [Dbg ''Step all services ...'', ServiceStepAll, Dbg ''Timeout, resuming bootstrap.'']
   \<and> poll_results (trace (final_worker env_done spent)) = []
   \<and> finalize_calls (trace (final_worker env_done spent)) = 1"
proof -
  have h: "cnt spent \<le> 0" by (simp add: spent_def)
  from final_worker_budget_spent [OF h, of env_done] show ?thesis
    by (simp add: trace_finalize) (simp add: spent_def env_done_def poll_results_def finalize_calls_def)
qed

end
